theory Spec2Isabelle
  imports Main
begin

section \<open>The poll store of \<^verbatim>\<open>poll.py\<close>\<close>

text \<open>
  \<^verbatim>\<open>poll.py\<close> keeps every poll in three SQLite tables and reads and writes them
  through the methods of the class \<^verbatim>\<open>Poll\<close>. The tables are modelled as lists of
  rows (a table's list is in insertion order; no statement below depends on the order
  in which SQLite returns unordered rows), the \<^verbatim>\<open>Poll\<close> object as a record, every
  \<^verbatim>\<open>raise\<close> as a value of the type \<open>error\<close>, and every method that writes as a
  function returning its outcome together with the tables afterwards.
\<close>

subsection \<open>Tables\<close>

text \<open>
  \<^verbatim>\<open>Polls (poll_id integer PRIMARY KEY, creator, message, finished, secret, public,
  max_votes)\<close>, \<^verbatim>\<open>VoteOptions (poll_id, number, name)\<close> and
  \<^verbatim>\<open>Votes (poll_id, voter, vote)\<close>. Python's \<^verbatim>\<open>False\<close>/\<^verbatim>\<open>True\<close> are stored in the
  integer columns as 0/1.
\<close>

datatype polls_row = PollsRow
  (p_poll_id: int) (p_creator: string) (p_message: string)
  (p_finished: int) (p_secret: int) (p_public: int) (p_max_votes: int)

datatype options_row = OptionsRow (o_poll_id: int) (o_number: int) (o_name: string)

datatype votes_row = VotesRow (v_poll_id: int) (v_voter: string) (v_vote: int)

record database =
  Polls :: "polls_row list"
  VoteOptions :: "options_row list"
  Votes :: "votes_row list"

text \<open>
  An open connection: to a database file in which the three tables were never created,
  where every statement naming one of them raises \<^verbatim>\<open>sqlite3.Error\<close>, or to a database
  with its tables.
\<close>

datatype connection = NoTables | Tables database

text \<open>
  The file that \<^verbatim>\<open>settings.DATABASE\<close> names (the module \<^verbatim>\<open>settings\<close> is configuration
  and a parameter here): \<^verbatim>\<open>sqlite3.connect\<close> opens it, or raises
  \<^verbatim>\<open>sqlite3.OperationalError\<close> when it cannot be opened.
\<close>

datatype database_file = Unopenable | Opens connection

datatype sqlite3_Error = OperationalError

datatype error =
  NoMoreVotesError | InvalidPollError | IndexError | TypeError | OverflowError
  | Sqlite3Error sqlite3_Error

text \<open>
  \<^verbatim>\<open>cur.execute(sql, parameters)\<close> first prepares the statement, which is where a missing
  table raises \<^verbatim>\<open>sqlite3.Error\<close>, and then binds the parameters. A Python \<^verbatim>\<open>int\<close> is
  bound as SQLite's 64-bit signed integer; one that does not fit raises Python's
  \<^verbatim>\<open>OverflowError\<close>, which is not an \<^verbatim>\<open>sqlite3.Error\<close>. The conversion is modelled
  where an \<^verbatim>\<open>int\<close> of the caller reaches a statement unchecked: the id of \<^verbatim>\<open>load\<close> and
  the \<^verbatim>\<open>vote_id\<close> of \<^verbatim>\<open>count_votes\<close> and \<^verbatim>\<open>voters\<close>. The other integers bound are row
  ids that SQLite handed out, indices of an option list, and the \<^verbatim>\<open>vote_id\<close> that
  \<^verbatim>\<open>vote\<close> has checked against the option list before its first statement.
\<close>

definition sqlite_integer :: "int \<Rightarrow> bool" where
  "sqlite_integer i \<longleftrightarrow> - 9223372036854775808 \<le> i \<and> i \<le> 9223372036854775807"

subsection \<open>The Poll object and its construction\<close>

record poll =
  poll_id :: int
  creator_id :: string
  message :: string
  vote_options :: "string list"
  secret :: int
  public :: int
  max_votes :: int

text \<open>\<^verbatim>\<open>SELECT name FROM VoteOptions WHERE poll_id=? ORDER BY number ASC\<close>\<close>

definition select_names :: "connection \<Rightarrow> int \<Rightarrow> sqlite3_Error + string list" where
  "select_names con i =
     (case con of
        NoTables \<Rightarrow> Inl OperationalError
      | Tables db \<Rightarrow>
          Inr (map o_name (sort_key o_number (filter (\<lambda>r. o_poll_id r = i) (VoteOptions db)))))"

text \<open>
  \<^verbatim>\<open>SELECT creator, message, secret, public, max_votes FROM Polls WHERE poll_id=?\<close>
  followed by \<^verbatim>\<open>fetchone()\<close>: the first matching row, or \<^verbatim>\<open>None\<close>.
\<close>

definition select_poll :: "connection \<Rightarrow> int \<Rightarrow> sqlite3_Error + polls_row option" where
  "select_poll con i =
     (case con of
        NoTables \<Rightarrow> Inl OperationalError
      | Tables db \<Rightarrow> Inr (find (\<lambda>r. p_poll_id r = i) (Polls db)))"

text \<open>
  \<^verbatim>\<open>Poll.__init__\<close>, for an id that SQLite can bind: both reads are inside the \<^verbatim>\<open>try\<close>
  whose handler turns every \<^verbatim>\<open>sqlite3.Error\<close> into \<^verbatim>\<open>InvalidPollError\<close>.
\<close>

definition Poll_init :: "connection \<Rightarrow> int \<Rightarrow> error + poll" where
  "Poll_init con i =
     (case select_names con i of
        Inl e \<Rightarrow> Inl InvalidPollError
      | Inr names \<Rightarrow>
          if names = [] then Inl InvalidPollError
          else (case select_poll con i of
                  Inl e \<Rightarrow> Inl InvalidPollError
                | Inr None \<Rightarrow> Inl InvalidPollError
                | Inr (Some row) \<Rightarrow>
                    Inr \<lparr>poll_id = i, creator_id = p_creator row, message = p_message row,
                         vote_options = names, secret = p_secret row, public = p_public row,
                         max_votes = p_max_votes row\<rparr>))"

text \<open>\<^verbatim>\<open>sqlite3.connect(settings.DATABASE)\<close>\<close>

definition connect :: "database_file \<Rightarrow> sqlite3_Error + connection" where
  "connect file = (case file of Unopenable \<Rightarrow> Inl OperationalError | Opens con \<Rightarrow> Inr con)"

text \<open>
  \<^verbatim>\<open>Poll.load\<close>: it connects outside any \<^verbatim>\<open>try\<close>, so a failure to connect reaches the
  caller as the \<^verbatim>\<open>sqlite3.Error\<close> it is, and passes the caller's id to \<^verbatim>\<open>__init__\<close>.
  There the first statement is prepared, which raises \<^verbatim>\<open>sqlite3.Error\<close> inside the
  \<^verbatim>\<open>try\<close> when the tables are missing, and then bound to the id, which raises
  \<^verbatim>\<open>OverflowError\<close> for an id outside 64 bits; the handler catches \<^verbatim>\<open>sqlite3.Error\<close>
  only.
\<close>

definition load :: "database_file \<Rightarrow> int \<Rightarrow> error + poll" where
  "load file i =
     (case connect file of
        Inl e \<Rightarrow> Inl (Sqlite3Error e)
      | Inr NoTables \<Rightarrow> Poll_init NoTables i
      | Inr (Tables db) \<Rightarrow>
          if sqlite_integer i then Poll_init (Tables db) i else Inl OverflowError)"

text \<open>
  The three \<^verbatim>\<open>CREATE TABLE IF NOT EXISTS\<close> statements at the start of
  \<^verbatim>\<open>Poll.create\<close>, and their commit.
\<close>

definition create_tables :: "connection \<Rightarrow> database" where
  "create_tables con =
     (case con of
        NoTables \<Rightarrow> \<lparr>Polls = [], VoteOptions = [], Votes = []\<rparr>
      | Tables db \<Rightarrow> db)"

text \<open>
  \<^verbatim>\<open>cur.lastrowid\<close> after the insert into \<^verbatim>\<open>Polls\<close>: an integer primary key that is
  not given is one more than the largest in the table, and 1 in an empty table (row ids
  are taken to stay below SQLite's largest, \<open>2\<^sup>6\<^sup>3 - 1\<close>).
\<close>

definition lastrowid :: "polls_row list \<Rightarrow> int" where
  "lastrowid rows = (if rows = [] then 1 else Max (set (map p_poll_id rows)) + 1)"

definition of_py_bool :: "bool \<Rightarrow> int" where
  "of_py_bool b = (if b then 1 else 0)"

text \<open>\<^verbatim>\<open>Poll.create\<close>: the object it returns, or the error, and the tables afterwards.\<close>

definition create ::
  "connection \<Rightarrow> string \<Rightarrow> string \<Rightarrow> string list \<Rightarrow> bool \<Rightarrow> bool \<Rightarrow> int
     \<Rightarrow> (error + poll) \<times> database" where
  "create con creator msg options sec pub maxv =
     (let db = create_tables con;
          options = (if options = [] then [''Yes'', ''No''] else options);
          maxv = max 1 (min maxv (int (length options)));
          i = lastrowid (Polls db);
          db = db\<lparr>Polls := Polls db @
                  [PollsRow i creator msg 0 (of_py_bool sec) (of_py_bool pub) maxv]\<rparr>;
          db = db\<lparr>VoteOptions := VoteOptions db @
                  map (\<lambda>(number, name). OptionsRow i (int number) name) (enumerate 0 options)\<rparr>
      in (Poll_init (Tables db) i, db))"

subsection \<open>Tally queries\<close>

definition num_votes :: "database \<Rightarrow> poll \<Rightarrow> nat" where
  "num_votes db self = length (filter (\<lambda>r. v_poll_id r = poll_id self) (Votes db))"

text \<open>\<^verbatim>\<open>GROUP BY voter\<close> gives one row for each voter that occurs.\<close>

definition num_voters :: "database \<Rightarrow> poll \<Rightarrow> nat" where
  "num_voters db self =
     length (remdups (map v_voter (filter (\<lambda>r. v_poll_id r = poll_id self) (Votes db))))"

text \<open>
  The rows of \<^verbatim>\<open>... FROM Votes WHERE poll_id=? AND vote=?\<close>, which \<^verbatim>\<open>count_votes\<close>
  and \<^verbatim>\<open>voters\<close> both read.
\<close>

definition select_votes :: "database \<Rightarrow> int \<Rightarrow> int \<Rightarrow> votes_row list" where
  "select_votes db i vote_id =
     filter (\<lambda>r. v_poll_id r = i \<and> v_vote r = vote_id) (Votes db)"

text \<open>
  \<^verbatim>\<open>count_votes\<close> and \<^verbatim>\<open>voters\<close> bind the caller's \<^verbatim>\<open>vote_id\<close> as it comes: there is
  no check against the option list, and binding raises \<^verbatim>\<open>OverflowError\<close> outside 64
  bits.
\<close>

definition count_votes :: "database \<Rightarrow> poll \<Rightarrow> int \<Rightarrow> error + nat" where
  "count_votes db self vote_id =
     (if sqlite_integer vote_id then Inr (length (select_votes db (poll_id self) vote_id))
      else Inl OverflowError)"

definition voters :: "database \<Rightarrow> poll \<Rightarrow> int \<Rightarrow> error + string list" where
  "voters db self vote_id =
     (if sqlite_integer vote_id then Inr (map v_voter (select_votes db (poll_id self) vote_id))
      else Inl OverflowError)"

definition votes :: "database \<Rightarrow> poll \<Rightarrow> string \<Rightarrow> int list" where
  "votes db self user_id =
     map v_vote (filter (\<lambda>r. v_poll_id r = poll_id self \<and> v_voter r = user_id) (Votes db))"

text \<open>
  \<^verbatim>\<open>is_finished\<close> subscripts what \<^verbatim>\<open>fetchone()\<close> returns; that is \<^verbatim>\<open>None\<close>, and
  the subscript a \<^verbatim>\<open>TypeError\<close>, when the poll has no row.
\<close>

definition is_finished :: "database \<Rightarrow> poll \<Rightarrow> error + bool" where
  "is_finished db self =
     (case find (\<lambda>r. p_poll_id r = poll_id self) (Polls db) of
        None \<Rightarrow> Inl TypeError
      | Some row \<Rightarrow> Inr (p_finished row = 1))"

subsection \<open>Voting and ending\<close>

text \<open>\<^verbatim>\<open>DELETE FROM Votes WHERE poll_id=? AND voter=? AND vote=?\<close>\<close>

definition delete_vote :: "int \<Rightarrow> string \<Rightarrow> int \<Rightarrow> database \<Rightarrow> database" where
  "delete_vote i user_id vote_id db =
     db\<lparr>Votes := filter (\<lambda>r. \<not> (v_poll_id r = i \<and> v_voter r = user_id \<and> v_vote r = vote_id))
                    (Votes db)\<rparr>"

text \<open>\<^verbatim>\<open>DELETE FROM Votes WHERE poll_id=? AND voter=?\<close>\<close>

definition delete_votes :: "int \<Rightarrow> string \<Rightarrow> database \<Rightarrow> database" where
  "delete_votes i user_id db =
     db\<lparr>Votes := filter (\<lambda>r. \<not> (v_poll_id r = i \<and> v_voter r = user_id)) (Votes db)\<rparr>"

text \<open>
  \<^verbatim>\<open>INSERT INTO Votes\<close> under \<^verbatim>\<open>UNIQUE (poll_id, voter, vote) ON CONFLICT REPLACE\<close>:
  a row equal to the new one is removed before the new one is added.
\<close>

definition insert_vote :: "int \<Rightarrow> string \<Rightarrow> int \<Rightarrow> database \<Rightarrow> database" where
  "insert_vote i user_id vote_id db =
     db\<lparr>Votes := filter (\<lambda>r. r \<noteq> VotesRow i user_id vote_id) (Votes db)
                    @ [VotesRow i user_id vote_id]\<rparr>"

text \<open>
  \<^verbatim>\<open>Poll.vote\<close>: \<open>Inr ()\<close> when it returns, \<open>Inl\<close> the exception when it raises, and
  the tables as the call leaves them.
\<close>

definition vote :: "database \<Rightarrow> poll \<Rightarrow> string \<Rightarrow> int \<Rightarrow> (error + unit) \<times> database" where
  "vote db self user_id vote_id =
     (case is_finished db self of
        Inl e \<Rightarrow> (Inl e, db)
      | Inr finished \<Rightarrow>
          if finished then (Inr (), db)
          else if vote_id < 0 \<or> vote_id \<ge> int (length (vote_options self)) then (Inl IndexError, db)
          else
            let vs = votes db self user_id in
            if vote_id \<in> set vs then
              (Inr (), delete_vote (poll_id self) user_id vote_id db)
            else if int (length vs) \<ge> max_votes self then
              (if max_votes self = 1 then
                 (Inr (), insert_vote (poll_id self) user_id vote_id
                            (delete_votes (poll_id self) user_id db))
               else (Inl NoMoreVotesError, db))
            else (Inr (), insert_vote (poll_id self) user_id vote_id db))"

text \<open>\<^verbatim>\<open>Poll.end\<close>: \<^verbatim>\<open>UPDATE Polls SET finished=1 WHERE poll_id=?\<close>\<close>

definition end_poll :: "database \<Rightarrow> poll \<Rightarrow> database" where
  "end_poll db self =
     db\<lparr>Polls := map (\<lambda>r. if p_poll_id r = poll_id self
                           then PollsRow (p_poll_id r) (p_creator r) (p_message r) 1
                                  (p_secret r) (p_public r) (p_max_votes r)
                           else r) (Polls db)\<rparr>"

subsection \<open>Polls of a database, and the states the program reaches\<close>

text \<open>
  A \<^verbatim>\<open>Poll\<close> object exists only as the result of \<^verbatim>\<open>__init__\<close>; \<open>poll_of db self\<close>
  says that \<open>self\<close> is what loading its id from \<open>db\<close> constructs.
\<close>

definition poll_of :: "database \<Rightarrow> poll \<Rightarrow> bool" where
  "poll_of db self = (Poll_init (Tables db) (poll_id self) = Inr self)"

text \<open>
  One call of the program: \<^verbatim>\<open>create\<close>, or \<^verbatim>\<open>vote\<close> or \<^verbatim>\<open>end\<close> on a constructed poll.
\<close>

inductive step :: "database \<Rightarrow> database \<Rightarrow> bool" where
  step_create: "create (Tables db) creator msg options sec pub maxv = (res, db') \<Longrightarrow> step db db'"
| step_vote: "poll_of db self \<Longrightarrow> vote db self user_id vote_id = (res, db') \<Longrightarrow> step db db'"
| step_end: "poll_of db self \<Longrightarrow> end_poll db self = db' \<Longrightarrow> step db db'"

text \<open>The states reached from a database file that starts without tables.\<close>

inductive reachable :: "database \<Rightarrow> bool" where
  reachable_init: "reachable (create_tables NoTables)"
| reachable_step: "reachable db \<Longrightarrow> step db db' \<Longrightarrow> reachable db'"

subsection \<open>Constraints of the schema and invariants of the program\<close>

text \<open>\<^verbatim>\<open>poll_id integer PRIMARY KEY\<close>: no two polls share an id.\<close>

definition primary_key :: "database \<Rightarrow> bool" where
  "primary_key db = distinct (map p_poll_id (Polls db))"

text \<open>\<^verbatim>\<open>CONSTRAINT single_vote UNIQUE (poll_id, voter, vote)\<close>\<close>

definition single_vote :: "database \<Rightarrow> bool" where
  "single_vote db = distinct (Votes db)"

text \<open>\<^verbatim>\<open>poll_id integer REFERENCES Polls (poll_id)\<close>, in both child tables.\<close>

definition references_polls :: "database \<Rightarrow> bool" where
  "references_polls db =
     ((\<forall>r \<in> set (VoteOptions db). o_poll_id r \<in> set (map p_poll_id (Polls db))) \<and>
      (\<forall>r \<in> set (Votes db). v_poll_id r \<in> set (map p_poll_id (Polls db))))"

text \<open>Every recorded vote is an index into the options of its poll.\<close>

definition votes_in_range :: "database \<Rightarrow> bool" where
  "votes_in_range db =
     (\<forall>r \<in> set (Votes db).
        0 \<le> v_vote r \<and>
        v_vote r < int (length (filter (\<lambda>r'. o_poll_id r' = v_poll_id r) (VoteOptions db))))"

text \<open>No voter holds more records in a poll than the poll's \<^verbatim>\<open>max_votes\<close>.\<close>

definition votes_within_max :: "database \<Rightarrow> bool" where
  "votes_within_max db =
     (\<forall>row \<in> set (Polls db).
        1 \<le> p_max_votes row \<and>
        (\<forall>u. int (length (filter (\<lambda>r. v_poll_id r = p_poll_id row \<and> v_voter r = u) (Votes db)))
               \<le> p_max_votes row))"

definition invariant :: "database \<Rightarrow> bool" where
  "invariant db =
     (primary_key db \<and> single_vote db \<and> references_polls db \<and> votes_in_range db
      \<and> votes_within_max db)"

subsection \<open>A database with two polls\<close>

text \<open>
  The tables after \<^verbatim>\<open>create('alice', 'Lunch?', ['Pizza', 'Sushi', 'Salad'], max_votes=2)\<close>
  and \<^verbatim>\<open>create('dave', 'Ship it?')\<close> on a new database file, followed by the votes of
  bob for options 0 and 2 and of carol for option 0 in the first poll, and of bob for
  option 0 in the second.
\<close>

definition lunch :: poll where
  "lunch = \<lparr>poll_id = 1, creator_id = ''alice'', message = ''Lunch?'',
            vote_options = [''Pizza'', ''Sushi'', ''Salad''], secret = 0, public = 0,
            max_votes = 2\<rparr>"

definition ship :: poll where
  "ship = \<lparr>poll_id = 2, creator_id = ''dave'', message = ''Ship it?'',
           vote_options = [''Yes'', ''No''], secret = 0, public = 0, max_votes = 1\<rparr>"

definition two_polls :: database where
  "two_polls =
     \<lparr>Polls = [PollsRow 1 ''alice'' ''Lunch?'' 0 0 0 2, PollsRow 2 ''dave'' ''Ship it?'' 0 0 0 1],
      VoteOptions = [OptionsRow 1 0 ''Pizza'', OptionsRow 1 1 ''Sushi'', OptionsRow 1 2 ''Salad'',
                     OptionsRow 2 0 ''Yes'', OptionsRow 2 1 ''No''],
      Votes = [VotesRow 1 ''bob'' 0, VotesRow 1 ''bob'' 2, VotesRow 1 ''carol'' 0,
               VotesRow 2 ''bob'' 0]\<rparr>"

text \<open>
  A poll that has a row, all of whose rows are marked finished: what \<^verbatim>\<open>end\<close> establishes.
\<close>

definition closed_for :: "poll \<Rightarrow> database \<Rightarrow> bool" where
  "closed_for self db =
     ((\<exists>r \<in> set (Polls db). p_poll_id r = poll_id self) \<and>
      (\<forall>r \<in> set (Polls db). p_poll_id r = poll_id self \<longrightarrow> p_finished r = 1))"

section \<open>Auxiliary facts\<close>

subsection \<open>Construction, voting and the invariant\<close>

lemma Poll_init_Inr:
  assumes "Poll_init (Tables db) i = Inr self"
  shows "\<exists>row. find (\<lambda>r. p_poll_id r = i) (Polls db) = Some row \<and>
           self = \<lparr>poll_id = i, creator_id = p_creator row, message = p_message row,
                   vote_options = map o_name (sort_key o_number
                                    (filter (\<lambda>r. o_poll_id r = i) (VoteOptions db))),
                   secret = p_secret row, public = p_public row,
                   max_votes = p_max_votes row\<rparr> \<and>
           filter (\<lambda>r. o_poll_id r = i) (VoteOptions db) \<noteq> []"
  using assms
  by (auto simp: Poll_init_def select_names_def select_poll_def
           split: if_splits option.splits)

lemma poll_of_row:
  assumes "poll_of db self"
  shows "\<exists>row. find (\<lambda>r. p_poll_id r = poll_id self) (Polls db) = Some row
           \<and> max_votes self = p_max_votes row"
    and "length (vote_options self) = length (filter (\<lambda>r. o_poll_id r = poll_id self) (VoteOptions db))"
    and "vote_options self \<noteq> []"
proof -
  from assms obtain row where
    f: "find (\<lambda>r. p_poll_id r = poll_id self) (Polls db) = Some row" and
    s: "self = \<lparr>poll_id = poll_id self, creator_id = p_creator row, message = p_message row,
                   vote_options = map o_name (sort_key o_number
                                    (filter (\<lambda>r. o_poll_id r = poll_id self) (VoteOptions db))),
                   secret = p_secret row, public = p_public row,
                   max_votes = p_max_votes row\<rparr>" and
    n: "filter (\<lambda>r. o_poll_id r = poll_id self) (VoteOptions db) \<noteq> []"
    unfolding poll_of_def using Poll_init_Inr by blast
  have "max_votes self = p_max_votes row"
    by (subst s) simp
  with f show "\<exists>row. find (\<lambda>r. p_poll_id r = poll_id self) (Polls db) = Some row
           \<and> max_votes self = p_max_votes row" by blast
  show "length (vote_options self) = length (filter (\<lambda>r. o_poll_id r = poll_id self) (VoteOptions db))"
    by (subst s) simp
  have "vote_options self = map o_name (sort_key o_number
                                    (filter (\<lambda>r. o_poll_id r = poll_id self) (VoteOptions db)))"
    by (subst s) simp
  with n show "vote_options self \<noteq> []"
    by (metis length_0_conv length_map length_sort)
qed

lemma find_row_mem:
  "find (\<lambda>r. p_poll_id r = i) rows = Some row \<Longrightarrow> row \<in> set rows \<and> p_poll_id row = i"
  by (auto simp: find_Some_iff)

lemma find_row_unique:
  "distinct (map p_poll_id rows) \<Longrightarrow> row \<in> set rows \<Longrightarrow>
     find (\<lambda>r. p_poll_id r = p_poll_id row) rows = Some row"
  by (induction rows) auto

lemma lastrowid_fresh: "lastrowid rows \<notin> set (map p_poll_id rows)"
proof
  assume a: "lastrowid rows \<in> set (map p_poll_id rows)"
  then have ne: "rows \<noteq> []" by auto
  have "lastrowid rows \<le> Max (set (map p_poll_id rows))"
    using a by (intro Max_ge) auto
  then show False using ne by (simp add: lastrowid_def)
qed

lemma insert_after_delete_votes:
  "Votes (insert_vote i u x (delete_votes i u db)) =
     filter (\<lambda>r. \<not> (v_poll_id r = i \<and> v_voter r = u)) (Votes db) @ [VotesRow i u x]"
  by (auto simp: insert_vote_def delete_votes_def intro!: filter_cong)

lemma tables_unchanged [simp]:
  "Polls (delete_vote i u x db) = Polls db" "VoteOptions (delete_vote i u x db) = VoteOptions db"
  "Polls (delete_votes i u db) = Polls db" "VoteOptions (delete_votes i u db) = VoteOptions db"
  "Polls (insert_vote i u x db) = Polls db" "VoteOptions (insert_vote i u x db) = VoteOptions db"
  by (simp_all add: delete_vote_def delete_votes_def insert_vote_def)

lemma vote_finished: "is_finished db self = Inr True \<Longrightarrow> vote db self u x = (Inr (), db)"
  by (simp add: vote_def)

lemma vote_unvote:
  "is_finished db self = Inr False \<Longrightarrow> 0 \<le> x \<Longrightarrow> x < int (length (vote_options self)) \<Longrightarrow>
   x \<in> set (votes db self u) \<Longrightarrow>
   vote db self u x = (Inr (), delete_vote (poll_id self) u x db)"
  by (simp add: vote_def)

lemma vote_room:
  "is_finished db self = Inr False \<Longrightarrow> 0 \<le> x \<Longrightarrow> x < int (length (vote_options self)) \<Longrightarrow>
   x \<notin> set (votes db self u) \<Longrightarrow> int (length (votes db self u)) < max_votes self \<Longrightarrow>
   vote db self u x = (Inr (), insert_vote (poll_id self) u x db)"
  by (simp add: vote_def)

lemma vote_replace:
  "is_finished db self = Inr False \<Longrightarrow> 0 \<le> x \<Longrightarrow> x < int (length (vote_options self)) \<Longrightarrow>
   x \<notin> set (votes db self u) \<Longrightarrow> max_votes self \<le> int (length (votes db self u)) \<Longrightarrow>
   max_votes self = 1 \<Longrightarrow>
   vote db self u x = (Inr (), insert_vote (poll_id self) u x (delete_votes (poll_id self) u db))"
  by (simp add: vote_def)

lemma vote_refused:
  "is_finished db self = Inr False \<Longrightarrow> 0 \<le> x \<Longrightarrow> x < int (length (vote_options self)) \<Longrightarrow>
   x \<notin> set (votes db self u) \<Longrightarrow> max_votes self \<le> int (length (votes db self u)) \<Longrightarrow>
   max_votes self \<noteq> 1 \<Longrightarrow>
   vote db self u x = (Inl NoMoreVotesError, db)"
  by (simp add: vote_def)

lemma vote_cases:
  assumes "vote db self u x = (res, db')"
  shows "Polls db' = Polls db \<and> VoteOptions db' = VoteOptions db \<and>
     (Votes db' = Votes db
      \<or> Votes db' = filter (\<lambda>r. \<not> (v_poll_id r = poll_id self \<and> v_voter r = u \<and> v_vote r = x)) (Votes db)
      \<or> (0 \<le> x \<and> x < int (length (vote_options self)) \<and>
          (\<exists>row. find (\<lambda>r. p_poll_id r = poll_id self) (Polls db) = Some row) \<and>
          ((int (length (votes db self u)) < max_votes self \<and>
            Votes db' = filter (\<lambda>r. r \<noteq> VotesRow (poll_id self) u x) (Votes db) @ [VotesRow (poll_id self) u x])
          \<or> (max_votes self = 1 \<and>
            Votes db' = filter (\<lambda>r. \<not> (v_poll_id r = poll_id self \<and> v_voter r = u)) (Votes db) @ [VotesRow (poll_id self) u x]))))"
proof (cases "is_finished db self")
  case (Inl e)
  with assms show ?thesis by (auto simp: vote_def)
next
  case (Inr fin)
  then obtain row where row: "find (\<lambda>r. p_poll_id r = poll_id self) (Polls db) = Some row"
    by (auto simp: is_finished_def split: option.splits)
  show ?thesis
  proof (cases "fin \<or> x < 0 \<or> int (length (vote_options self)) \<le> x")
    case True
    then have "vote db self u x = (Inr (), db) \<or> vote db self u x = (Inl IndexError, db)"
      using Inr by (cases fin) (simp_all add: vote_def)
    with assms show ?thesis by auto
  next
    case False
    with Inr have nf: "is_finished db self = Inr False" and x0: "0 \<le> x"
      and x1: "x < int (length (vote_options self))" by auto
    consider (a) "x \<in> set (votes db self u)"
      | (b) "x \<notin> set (votes db self u)" "int (length (votes db self u)) < max_votes self"
      | (c) "x \<notin> set (votes db self u)" "max_votes self \<le> int (length (votes db self u))" "max_votes self = 1"
      | (d) "x \<notin> set (votes db self u)" "max_votes self \<le> int (length (votes db self u))" "max_votes self \<noteq> 1"
      by linarith
    then show ?thesis
    proof cases
      case a
      from vote_unvote[OF nf x0 x1 a] assms show ?thesis
        by (auto simp: delete_vote_def)
    next
      case b
      from vote_room[OF nf x0 x1 b] assms row x0 x1 b show ?thesis
        by (auto simp: insert_vote_def)
    next
      case c
      from vote_replace[OF nf x0 x1 c] assms have "db' = insert_vote (poll_id self) u x (delete_votes (poll_id self) u db)"
        by simp
      with row x0 x1 c show ?thesis
        by (simp add: insert_after_delete_votes)
    next
      case d
      from vote_refused[OF nf x0 x1 d] assms show ?thesis by simp
    qed
  qed
qed

lemma create_tables_unfold:
  "snd (create (Tables db) creator msg options sec pub maxv) =
     db\<lparr>Polls := Polls db @
            [PollsRow (lastrowid (Polls db)) creator msg 0 (of_py_bool sec) (of_py_bool pub)
               (max 1 (min maxv (int (length (if options = [] then [''Yes'', ''No''] else options)))))],
        VoteOptions := VoteOptions db @
            map (\<lambda>(number, name). OptionsRow (lastrowid (Polls db)) (int number) name)
              (enumerate 0 (if options = [] then [''Yes'', ''No''] else options))\<rparr>"
  by (simp add: create_def create_tables_def Let_def)

lemma invariant_init: "invariant (create_tables NoTables)"
  by (simp add: invariant_def create_tables_def primary_key_def single_vote_def
        references_polls_def votes_in_range_def votes_within_max_def)

lemma invariant_create:
  assumes inv: "invariant db"
    and c: "create (Tables db) creator msg options sec pub maxv = (res, db')"
  shows "invariant db'"
proof -
  let ?i = "lastrowid (Polls db)"
  let ?opts = "if options = [] then [''Yes'', ''No''] else options"
  from c have "db' = snd (create (Tables db) creator msg options sec pub maxv)" by simp
  then have P: "Polls db' = Polls db @
            [PollsRow ?i creator msg 0 (of_py_bool sec) (of_py_bool pub)
               (max 1 (min maxv (int (length ?opts))))]"
    and O: "VoteOptions db' = VoteOptions db @
            map (\<lambda>(number, name). OptionsRow ?i (int number) name) (enumerate 0 ?opts)"
    and V: "Votes db' = Votes db"
    by (simp_all only: create_tables_unfold, simp_all)
  have fresh: "?i \<notin> set (map p_poll_id (Polls db))" by (rule lastrowid_fresh)
  from inv have pk: "primary_key db" and sv: "single_vote db" and rp: "references_polls db"
    and vr: "votes_in_range db" and vm: "votes_within_max db"
    by (simp_all add: invariant_def)
  have "primary_key db'"
    using pk fresh by (simp add: primary_key_def P)
  moreover have "single_vote db'"
    using sv by (simp add: single_vote_def V)
  moreover have "references_polls db'"
    using rp by (auto simp: references_polls_def P O V)
  moreover have "votes_in_range db'"
    using vr by (fastforce simp: votes_in_range_def O V)
  moreover have "votes_within_max db'"
  proof -
    have "filter (\<lambda>r. v_poll_id r = ?i \<and> v_voter r = u) (Votes db) = []" for u
    proof -
      have "v_poll_id r \<noteq> ?i" if "r \<in> set (Votes db)" for r
        using rp fresh that unfolding references_polls_def by metis
      then show ?thesis by (auto simp: filter_empty_conv)
    qed
    then show ?thesis
      using vm by (auto simp: votes_within_max_def P V)
  qed
  ultimately show ?thesis by (simp add: invariant_def)
qed

lemma invariant_end:
  assumes inv: "invariant db"
  shows "invariant (end_poll db self)"
proof -
  have ids: "map p_poll_id (Polls (end_poll db self)) = map p_poll_id (Polls db)"
    by (simp add: end_poll_def comp_def if_distrib)
  have O: "VoteOptions (end_poll db self) = VoteOptions db"
    and V: "Votes (end_poll db self) = Votes db"
    by (simp_all add: end_poll_def)
  from inv have pk: "primary_key db" and sv: "single_vote db" and rp: "references_polls db"
    and vr: "votes_in_range db" and vm: "votes_within_max db"
    by (simp_all add: invariant_def)
  have "primary_key (end_poll db self)"
    using pk by (simp add: primary_key_def ids)
  moreover have "single_vote (end_poll db self)"
    using sv by (simp add: single_vote_def V)
  moreover have "references_polls (end_poll db self)"
    using rp by (simp add: references_polls_def ids O V)
  moreover have "votes_in_range (end_poll db self)"
    using vr by (simp add: votes_in_range_def O V)
  moreover have "votes_within_max (end_poll db self)"
    using vm by (auto simp: votes_within_max_def V end_poll_def)
  ultimately show ?thesis by (simp add: invariant_def)
qed

lemma length_filter_filter_le:
  "length (filter P (filter Q xs)) \<le> length (filter P xs)"
  by (induction xs) auto

lemma invariant_vote:
  assumes inv: "invariant db"
    and p: "poll_of db self"
    and v: "vote db self u x = (res, db')"
  shows "invariant db'"
proof -
  let ?r = "VotesRow (poll_id self) u x"
  from inv have pk: "primary_key db" and sv: "single_vote db" and rp: "references_polls db"
    and vr: "votes_in_range db" and vm: "votes_within_max db"
    by (simp_all add: invariant_def)
  from poll_of_row[OF p] obtain row where
    row: "find (\<lambda>r. p_poll_id r = poll_id self) (Polls db) = Some row"
    and mv: "max_votes self = p_max_votes row"
    and len: "length (vote_options self) = length (filter (\<lambda>r. o_poll_id r = poll_id self) (VoteOptions db))"
    by blast
  from row have rowin: "row \<in> set (Polls db)" and rowid: "p_poll_id row = poll_id self"
    using find_row_mem by blast+
  have idin: "poll_id self \<in> set (map p_poll_id (Polls db))"
    using rowin rowid by force
  have same: "row' = row" if "row' \<in> set (Polls db)" "p_poll_id row' = poll_id self" for row'
  proof -
    from pk have "inj_on p_poll_id (set (Polls db))"
      by (simp add: primary_key_def distinct_map)
    then show ?thesis
      using rowin rowid that by (simp add: inj_on_def)
  qed
  from vote_cases[OF v] have P: "Polls db' = Polls db" and O: "VoteOptions db' = VoteOptions db"
    by simp_all
  from vote_cases[OF v] consider
      (same) "Votes db' = Votes db"
    | (del) "Votes db' = filter (\<lambda>r. \<not> (v_poll_id r = poll_id self \<and> v_voter r = u \<and> v_vote r = x)) (Votes db)"
    | (ins) "0 \<le> x" "x < int (length (vote_options self))"
        "int (length (votes db self u)) < max_votes self"
        "Votes db' = filter (\<lambda>r. r \<noteq> ?r) (Votes db) @ [?r]"
    | (rep) "0 \<le> x" "x < int (length (vote_options self))" "max_votes self = 1"
        "Votes db' = filter (\<lambda>r. \<not> (v_poll_id r = poll_id self \<and> v_voter r = u)) (Votes db) @ [?r]"
    by blast
  then show ?thesis
  proof cases
    case same
    with inv P O show ?thesis
      by (simp add: invariant_def primary_key_def single_vote_def references_polls_def
            votes_in_range_def votes_within_max_def)
  next
    case del
    have "votes_within_max db'"
      unfolding votes_within_max_def P del
    proof (intro ballI conjI allI)
      fix row' u'
      assume r': "row' \<in> set (Polls db)"
      with vm show "1 \<le> p_max_votes row'" by (simp add: votes_within_max_def)
      have "int (length (filter (\<lambda>r. v_poll_id r = p_poll_id row' \<and> v_voter r = u')
               (filter (\<lambda>r. \<not> (v_poll_id r = poll_id self \<and> v_voter r = u \<and> v_vote r = x)) (Votes db))))
          \<le> int (length (filter (\<lambda>r. v_poll_id r = p_poll_id row' \<and> v_voter r = u') (Votes db)))"
        using length_filter_filter_le by (simp only: of_nat_le_iff)
      also have "\<dots> \<le> p_max_votes row'"
        using vm r' by (simp add: votes_within_max_def)
      finally show "int (length (filter (\<lambda>r. v_poll_id r = p_poll_id row' \<and> v_voter r = u')
               (filter (\<lambda>r. \<not> (v_poll_id r = poll_id self \<and> v_voter r = u \<and> v_vote r = x)) (Votes db))))
          \<le> p_max_votes row'" .
    qed
    moreover have "primary_key db'" using pk by (simp add: primary_key_def P)
    moreover have "single_vote db'" using sv by (simp add: single_vote_def del)
    moreover have "references_polls db'"
      using rp by (simp add: references_polls_def P O del)
    moreover have "votes_in_range db'"
      using vr by (simp add: votes_in_range_def O del)
    ultimately show ?thesis by (simp add: invariant_def)
  next
    case ins
    have "votes_within_max db'"
      unfolding votes_within_max_def P ins(4)
    proof (intro ballI conjI allI)
      fix row' u'
      assume r': "row' \<in> set (Polls db)"
      with vm show "1 \<le> p_max_votes row'" by (simp add: votes_within_max_def)
      let ?Q = "\<lambda>r. v_poll_id r = p_poll_id row' \<and> v_voter r = u'"
      have le: "length (filter ?Q (filter (\<lambda>r. r \<noteq> ?r) (Votes db))) \<le> length (filter ?Q (Votes db))"
        by (rule length_filter_filter_le)
      have old: "int (length (filter ?Q (Votes db))) \<le> p_max_votes row'"
        using vm r' by (simp add: votes_within_max_def)
      show "int (length (filter ?Q (filter (\<lambda>r. r \<noteq> ?r) (Votes db) @ [?r]))) \<le> p_max_votes row'"
      proof (cases "?Q ?r")
        case True
        then have "row' = row" "u' = u" using same r' by auto
        with ins(3) mv rowid
        have "int (length (filter ?Q (Votes db))) < p_max_votes row'"
          by (simp add: votes_def)
        with le True show ?thesis by simp
      next
        case False
        with le old show ?thesis by auto
      qed
    qed
    moreover have "primary_key db'" using pk by (simp add: primary_key_def P)
    moreover have "single_vote db'" using sv by (simp add: single_vote_def ins(4))
    moreover have "references_polls db'"
      using rp idin by (auto simp: references_polls_def P O ins(4))
    moreover have "votes_in_range db'"
      using vr ins(1,2) len by (auto simp: votes_in_range_def O ins(4))
    ultimately show ?thesis by (simp add: invariant_def)
  next
    case rep
    have "votes_within_max db'"
      unfolding votes_within_max_def P rep(4)
    proof (intro ballI conjI allI)
      fix row' u'
      assume r': "row' \<in> set (Polls db)"
      with vm show "1 \<le> p_max_votes row'" by (simp add: votes_within_max_def)
      let ?Q = "\<lambda>r. v_poll_id r = p_poll_id row' \<and> v_voter r = u'"
      let ?D = "\<lambda>r. \<not> (v_poll_id r = poll_id self \<and> v_voter r = u)"
      have le: "length (filter ?Q (filter ?D (Votes db))) \<le> length (filter ?Q (Votes db))"
        by (rule length_filter_filter_le)
      have old: "int (length (filter ?Q (Votes db))) \<le> p_max_votes row'"
        using vm r' by (simp add: votes_within_max_def)
      show "int (length (filter ?Q (filter ?D (Votes db) @ [?r]))) \<le> p_max_votes row'"
      proof (cases "?Q ?r")
        case True
        then have eq: "row' = row" "u' = u" using same r' by auto
        have "filter ?Q (filter ?D (Votes db)) = []"
          using True by (auto simp: filter_empty_conv)
        with True eq rep(3) mv show ?thesis by simp
      next
        case False
        with le old show ?thesis by auto
      qed
    qed
    moreover have "primary_key db'" using pk by (simp add: primary_key_def P)
    moreover have "single_vote db'" using sv by (auto simp: single_vote_def rep(4))
    moreover have "references_polls db'"
      using rp idin by (auto simp: references_polls_def P O rep(4))
    moreover have "votes_in_range db'"
      using vr rep(1,2) len by (auto simp: votes_in_range_def O rep(4))
    ultimately show ?thesis by (simp add: invariant_def)
  qed
qed

lemma invariant_step: "step db db' \<Longrightarrow> invariant db \<Longrightarrow> invariant db'"
  by (induction rule: step.induct) (auto intro: invariant_create invariant_vote invariant_end)

lemma reachable_invariant: "reachable db \<Longrightarrow> invariant db"
  by (induction rule: reachable.induct) (auto intro: invariant_init invariant_step)

subsection \<open>The database with two polls is reached by the program\<close>

lemma poll_of_lunch: "poll_of two_polls lunch"
  by (simp add: poll_of_def Poll_init_def select_names_def select_poll_def two_polls_def lunch_def)

lemma poll_of_ship: "poll_of two_polls ship"
  by (simp add: poll_of_def Poll_init_def select_names_def select_poll_def two_polls_def ship_def)

lemmas eval_defs =
  create_def create_tables_def lastrowid_def of_py_bool_def Poll_init_def select_names_def
  select_poll_def poll_of_def vote_def is_finished_def votes_def insert_vote_def delete_vote_def
  delete_votes_def lunch_def ship_def two_polls_def

lemma reachable_two_polls: "reachable two_polls"
proof -
  let ?P = "[PollsRow 1 ''alice'' ''Lunch?'' 0 0 0 2, PollsRow 2 ''dave'' ''Ship it?'' 0 0 0 1]"
  let ?O = "[OptionsRow 1 0 ''Pizza'', OptionsRow 1 1 ''Sushi'', OptionsRow 1 2 ''Salad'',
             OptionsRow 2 0 ''Yes'', OptionsRow 2 1 ''No'']"
  let ?s1 = "\<lparr>Polls = [PollsRow 1 ''alice'' ''Lunch?'' 0 0 0 2],
      VoteOptions = [OptionsRow 1 0 ''Pizza'', OptionsRow 1 1 ''Sushi'', OptionsRow 1 2 ''Salad''],
      Votes = []\<rparr>"
  let ?s2 = "\<lparr>Polls = ?P, VoteOptions = ?O, Votes = []\<rparr>"
  let ?s3 = "\<lparr>Polls = ?P, VoteOptions = ?O, Votes = [VotesRow 1 ''bob'' 0]\<rparr>"
  let ?s4 = "\<lparr>Polls = ?P, VoteOptions = ?O, Votes = [VotesRow 1 ''bob'' 0, VotesRow 1 ''bob'' 2]\<rparr>"
  let ?s5 = "\<lparr>Polls = ?P, VoteOptions = ?O,
              Votes = [VotesRow 1 ''bob'' 0, VotesRow 1 ''bob'' 2, VotesRow 1 ''carol'' 0]\<rparr>"
  have "create (Tables (create_tables NoTables)) ''alice'' ''Lunch?''
          [''Pizza'', ''Sushi'', ''Salad''] False False 2 = (Inr lunch, ?s1)"
    by (simp add: eval_defs)
  then have r1: "reachable ?s1"
    by (rule reachable_step[OF reachable_init step_create])
  have "create (Tables ?s1) ''dave'' ''Ship it?'' [] False False 1 = (Inr ship, ?s2)"
    by (simp add: eval_defs)
  then have r2: "reachable ?s2"
    by (rule reachable_step[OF r1 step_create])
  have "poll_of ?s2 lunch" "vote ?s2 lunch ''bob'' 0 = (Inr (), ?s3)"
    by (simp_all add: eval_defs)
  then have r3: "reachable ?s3"
    by (rule reachable_step[OF r2 step_vote])
  have "poll_of ?s3 lunch" "vote ?s3 lunch ''bob'' 2 = (Inr (), ?s4)"
    by (simp_all add: eval_defs)
  then have r4: "reachable ?s4"
    by (rule reachable_step[OF r3 step_vote])
  have "poll_of ?s4 lunch" "vote ?s4 lunch ''carol'' 0 = (Inr (), ?s5)"
    by (simp_all add: eval_defs)
  then have r5: "reachable ?s5"
    by (rule reachable_step[OF r4 step_vote])
  have "poll_of ?s5 ship" "vote ?s5 ship ''bob'' 0 = (Inr (), two_polls)"
    by (simp_all add: eval_defs)
  then show ?thesis
    by (rule reachable_step[OF r5 step_vote])
qed

subsection \<open>Facts used by the individual properties\<close>

lemma find_append_rows:
  "find P (xs @ ys) = (case find P xs of None \<Rightarrow> find P ys | Some x \<Rightarrow> Some x)"
  by (induction xs) auto

lemma closed_for_end_other:
  assumes "\<exists>r \<in> set (Polls db). p_poll_id r = poll_id self"
    and "poll_id q = poll_id self \<or>
         (\<forall>r \<in> set (Polls db). p_poll_id r = poll_id self \<longrightarrow> p_finished r = 1)"
  shows "closed_for self (end_poll db q)"
proof -
  define g where "g = (\<lambda>r. if p_poll_id r = poll_id q
                  then PollsRow (p_poll_id r) (p_creator r) (p_message r) 1
                         (p_secret r) (p_public r) (p_max_votes r)
                  else r)"
  have P: "Polls (end_poll db q) = map g (Polls db)"
    by (simp add: end_poll_def g_def)
  have id: "p_poll_id (g r) = p_poll_id r" for r by (simp add: g_def)
  have fin: "p_finished (g r) = 1 \<or> (p_poll_id r \<noteq> poll_id q \<and> g r = r)" for r
    by (simp add: g_def)
  from assms(1) obtain r where "r \<in> set (Polls db)" "p_poll_id r = poll_id self" by blast
  then have "g r \<in> set (map g (Polls db))" "p_poll_id (g r) = poll_id self"
    by (simp_all add: id)
  then have ex: "\<exists>r \<in> set (Polls (end_poll db q)). p_poll_id r = poll_id self"
    unfolding P by blast
  have "p_finished r' = 1"
    if "r' \<in> set (Polls (end_poll db q))" "p_poll_id r' = poll_id self" for r'
  proof -
    from that(1) obtain r where r: "r \<in> set (Polls db)" "r' = g r"
      unfolding P by auto
    with that(2) id[of r] have "p_poll_id r = poll_id self" by simp
    with assms(2) r fin[of r] show ?thesis by auto
  qed
  with ex show ?thesis by (simp add: closed_for_def)
qed

lemma closed_for_end: "poll_of db self \<Longrightarrow> closed_for self (end_poll db self)"
proof -
  assume "poll_of db self"
  from poll_of_row(1)[OF this] obtain row
    where "find (\<lambda>r. p_poll_id r = poll_id self) (Polls db) = Some row" by blast
  then have "row \<in> set (Polls db)" "p_poll_id row = poll_id self"
    using find_row_mem by blast+
  then have "\<exists>r \<in> set (Polls db). p_poll_id r = poll_id self" by blast
  then show ?thesis by (rule closed_for_end_other) simp
qed

lemma closed_for_step: "step db db' \<Longrightarrow> closed_for self db \<Longrightarrow> closed_for self db'"
proof (induction rule: step.induct)
  case (step_create db creator msg options sec pub maxv res db')
  from step_create(1) have "db' = snd (create (Tables db) creator msg options sec pub maxv)"
    by simp
  then have P: "Polls db' = Polls db @
      [PollsRow (lastrowid (Polls db)) creator msg 0 (of_py_bool sec) (of_py_bool pub)
         (max 1 (min maxv (int (length (if options = [] then [''Yes'', ''No''] else options)))))]"
    by (simp only: create_tables_unfold, simp)
  from step_create(2) have "poll_id self \<in> set (map p_poll_id (Polls db))"
    by (force simp: closed_for_def)
  with lastrowid_fresh[of "Polls db"] have "lastrowid (Polls db) \<noteq> poll_id self"
    by metis
  with step_create(2) show ?case
    by (auto simp: closed_for_def P)
next
  case (step_vote db q user_id vote_id res db')
  from vote_cases[OF step_vote(2)] have "Polls db' = Polls db" by simp
  with step_vote(3) show ?case by (simp add: closed_for_def)
next
  case (step_end db q db')
  from step_end(3) have "closed_for self (end_poll db q)"
    by (intro closed_for_end_other) (simp_all add: closed_for_def)
  with step_end(2) show ?case by simp
qed

lemma closed_for_steps: "step\<^sup>*\<^sup>* db db' \<Longrightarrow> closed_for self db \<Longrightarrow> closed_for self db'"
  by (induction rule: rtranclp_induct) (auto intro: closed_for_step)

lemma closed_for_finished: "closed_for self db \<Longrightarrow> is_finished db self = Inr True"
proof -
  assume c: "closed_for self db"
  then obtain row where "find (\<lambda>r. p_poll_id r = poll_id self) (Polls db) = Some row"
    by (cases "find (\<lambda>r. p_poll_id r = poll_id self) (Polls db)")
       (auto simp: closed_for_def find_None_iff)
  moreover from this have "row \<in> set (Polls db)" "p_poll_id row = poll_id self"
    using find_row_mem by blast+
  ultimately show ?thesis using c by (simp add: is_finished_def closed_for_def)
qed

lemma closed_for_end_again: "closed_for self db \<Longrightarrow> end_poll db self = db"
proof -
  assume c: "closed_for self db"
  have "map (\<lambda>r. if p_poll_id r = poll_id self
                  then PollsRow (p_poll_id r) (p_creator r) (p_message r) 1
                         (p_secret r) (p_public r) (p_max_votes r)
                  else r) (Polls db) = Polls db"
  proof (rule map_idI)
    fix r assume "r \<in> set (Polls db)"
    with c have "p_poll_id r = poll_id self \<Longrightarrow> p_finished r = 1"
      by (simp add: closed_for_def)
    then show "(if p_poll_id r = poll_id self
                  then PollsRow (p_poll_id r) (p_creator r) (p_message r) 1
                         (p_secret r) (p_public r) (p_max_votes r)
                  else r) = r"
      by (cases r) auto
  qed
  then show ?thesis by (simp add: end_poll_def)
qed

lemma is_finished_votes_changed [simp]:
  "is_finished (delete_vote i u x db) self = is_finished db self"
  "is_finished (delete_votes i u db) self = is_finished db self"
  "is_finished (insert_vote i u x db) self = is_finished db self"
  by (simp_all add: is_finished_def)

lemma votes_row_eq:
  "(r = VotesRow i u x) = (v_poll_id r = i \<and> v_voter r = u \<and> v_vote r = x)"
  by (cases r) auto

lemma held_iff_row:
  "x \<in> set (votes db self u) \<longleftrightarrow> VotesRow (poll_id self) u x \<in> set (Votes db)"
proof
  assume "x \<in> set (votes db self u)"
  then obtain r where r: "r \<in> set (Votes db)" and "v_poll_id r = poll_id self \<and> v_voter r = u
    \<and> v_vote r = x"
    by (auto simp: votes_def)
  then have "r = VotesRow (poll_id self) u x"
    by (simp only: votes_row_eq)
  with r show "VotesRow (poll_id self) u x \<in> set (Votes db)"
    by simp
next
  assume "VotesRow (poll_id self) u x \<in> set (Votes db)"
  then have "VotesRow (poll_id self) u x
      \<in> set (filter (\<lambda>r. v_poll_id r = poll_id self \<and> v_voter r = u) (Votes db))"
    by simp
  then have "v_vote (VotesRow (poll_id self) u x) \<in> set (votes db self u)"
    unfolding votes_def by (simp only: set_map image_eqI)
  then show "x \<in> set (votes db self u)" by simp
qed

lemma Votes_delete_vote:
  "Votes (delete_vote i u x db) = removeAll (VotesRow i u x) (Votes db)"
proof -
  have "filter (\<lambda>r. \<not> (v_poll_id r = i \<and> v_voter r = u \<and> v_vote r = x)) rows
          = removeAll (VotesRow i u x) rows" for rows
    by (induction rows) (auto simp: votes_row_eq)
  then show ?thesis by (simp add: delete_vote_def)
qed

lemma votes_after_delete_vote:
  "votes (delete_vote (poll_id self) u x db) self u = removeAll x (votes db self u)"
proof -
  have "map v_vote (filter (\<lambda>r. v_poll_id r = i \<and> v_voter r = u)
          (filter (\<lambda>r. \<not> (v_poll_id r = i \<and> v_voter r = u \<and> v_vote r = x)) rows))
        = removeAll x (map v_vote (filter (\<lambda>r. v_poll_id r = i \<and> v_voter r = u) rows))"
    for rows i
    by (induction rows) auto
  then show ?thesis by (simp add: votes_def delete_vote_def)
qed

lemma votes_after_insert_vote:
  "x \<notin> set (votes db self u) \<Longrightarrow>
   votes (insert_vote (poll_id self) u x db) self u = votes db self u @ [x]"
proof -
  assume "x \<notin> set (votes db self u)"
  then have "VotesRow (poll_id self) u x \<notin> set (Votes db)" by (simp add: held_iff_row)
  then have "filter (\<lambda>r. r \<noteq> VotesRow (poll_id self) u x) (Votes db) = Votes db"
    by (auto simp: filter_id_conv)
  then show ?thesis by (simp add: votes_def insert_vote_def)
qed

lemma votes_after_delete_votes:
  "votes (delete_votes (poll_id self) u db) self u = []"
  by (simp add: votes_def delete_votes_def)

lemma delete_after_insert:
  assumes "x \<notin> set (votes db self u)"
  shows "delete_vote (poll_id self) u x (insert_vote (poll_id self) u x db) = db"
proof -
  from assms have "VotesRow (poll_id self) u x \<notin> set (Votes db)" by (simp add: held_iff_row)
  then have f1: "filter (\<lambda>r. r \<noteq> VotesRow (poll_id self) u x) (Votes db) = Votes db"
    and f2: "removeAll (VotesRow (poll_id self) u x) (Votes db) = Votes db"
    by (auto simp: filter_id_conv simp del: removeAll_filter_not_eq)
  have V: "Votes (delete_vote (poll_id self) u x (insert_vote (poll_id self) u x db)) = Votes db"
    by (simp only: Votes_delete_vote) (simp add: insert_vote_def f1 f2)
  have "delete_vote (poll_id self) u x (insert_vote (poll_id self) u x db)
          = db\<lparr>Votes := Votes (delete_vote (poll_id self) u x (insert_vote (poll_id self) u x db))\<rparr>"
    by (simp add: delete_vote_def insert_vote_def)
  also have "\<dots> = db\<lparr>Votes := Votes db\<rparr>"
    by (simp only: V)
  also have "\<dots> = db" by simp
  finally show ?thesis .
qed

lemma cast_and_unvote:
  assumes nf: "is_finished db self = Inr False"
    and x0: "0 \<le> x" and x1: "x < int (length (vote_options self))"
    and new: "x \<notin> set (votes db self u)"
    and room: "int (length (votes db self u)) < max_votes self"
  shows "vote db self u x = (Inr (), insert_vote (poll_id self) u x db)"
    and "x \<in> set (votes (insert_vote (poll_id self) u x db) self u)"
    and "vote (insert_vote (poll_id self) u x db) self u x = (Inr (), db)"
proof -
  show "vote db self u x = (Inr (), insert_vote (poll_id self) u x db)"
    using nf x0 x1 new room by (rule vote_room)
  show held: "x \<in> set (votes (insert_vote (poll_id self) u x db) self u)"
    using new by (simp add: votes_after_insert_vote)
  have "vote (insert_vote (poll_id self) u x db) self u x =
          (Inr (), delete_vote (poll_id self) u x (insert_vote (poll_id self) u x db))"
    using nf x0 x1 held by (intro vote_unvote) simp_all
  then show "vote (insert_vote (poll_id self) u x db) self u x = (Inr (), db)"
    using new by (simp add: delete_after_insert)
qed

lemma first_cast:
  assumes nf: "is_finished db self = Inr False"
    and x0: "0 \<le> x" and x1: "x < int (length (vote_options self))"
    and new: "x \<notin> set (votes db self u)"
    and ok: "fst (vote db self u x) = Inr ()"
  shows "\<exists>d0. is_finished d0 self = Inr False \<and> x \<notin> set (votes d0 self u) \<and>
           int (length (votes d0 self u)) < max_votes self \<and>
           vote db self u x = (Inr (), insert_vote (poll_id self) u x d0)"
proof (cases "int (length (votes db self u)) < max_votes self")
  case True
  with cast_and_unvote(1)[OF nf x0 x1 new True] nf new show ?thesis by blast
next
  case False
  then have full: "max_votes self \<le> int (length (votes db self u))" by simp
  have one: "max_votes self = 1"
  proof (rule ccontr)
    assume "max_votes self \<noteq> 1"
    with vote_refused[OF nf x0 x1 new full] ok show False by simp
  qed
  let ?d0 = "delete_votes (poll_id self) u db"
  have "vote db self u x = (Inr (), insert_vote (poll_id self) u x ?d0)"
    using nf x0 x1 new full one by (rule vote_replace)
  moreover have "is_finished ?d0 self = Inr False" using nf by simp
  moreover have "x \<notin> set (votes ?d0 self u)" "int (length (votes ?d0 self u)) < max_votes self"
    using one by (simp_all add: votes_after_delete_votes)
  ultimately show ?thesis by blast
qed

lemma reachable_within_max:
  assumes "reachable db" and "poll_of db self"
  shows "int (length (votes db self u)) \<le> max_votes self"
proof -
  from assms(1) have "votes_within_max db"
    using reachable_invariant by (simp add: invariant_def)
  moreover from poll_of_row(1)[OF assms(2)] obtain row where
    "find (\<lambda>r. p_poll_id r = poll_id self) (Polls db) = Some row"
    "max_votes self = p_max_votes row" by blast
  moreover from this(1) have "row \<in> set (Polls db)" "p_poll_id row = poll_id self"
    using find_row_mem by blast+
  ultimately show ?thesis
    by (fastforce simp: votes_within_max_def votes_def)
qed

lemma create_any_connection:
  "create con creator msg options sec pub maxv =
     create (Tables (create_tables con)) creator msg options sec pub maxv"
  by (simp add: create_def create_tables_def)

lemma lastrowid_fresh_row: "r \<in> set rows \<Longrightarrow> p_poll_id r \<noteq> lastrowid rows"
  using lastrowid_fresh[of rows] by force

lemma sorted_numbers: "sorted (map int [0..<n])"
  by (induction n) (auto simp: sorted_append)

lemma new_options_rows:
  fixes i :: int and names :: "string list"
  defines "rows \<equiv> map (\<lambda>(number, name). OptionsRow i (int number) name) (enumerate 0 names)"
  shows "filter (\<lambda>r. o_poll_id r = i) rows = rows"
    and "sort_key o_number rows = rows"
    and "map o_name rows = names"
proof -
  show "filter (\<lambda>r. o_poll_id r = i) rows = rows"
    by (auto simp: rows_def filter_id_conv)
  have "map o_number rows = map int (map fst (enumerate 0 names))"
    by (simp add: rows_def comp_def case_prod_beta del: map_fst_enumerate)
  then have "sorted (map o_number rows)"
    by (simp only: map_fst_enumerate) (simp add: sorted_numbers)
  then show "sort_key o_number rows = rows"
    by (rule sort_key_id_if_sorted)
  have "map o_name rows = map snd (enumerate 0 names)"
    by (simp add: rows_def comp_def case_prod_beta del: map_snd_enumerate)
  then show "map o_name rows = names" by simp
qed

lemma create_loads_what_it_stored:
  assumes "references_polls db"
  defines "names \<equiv> (\<lambda>options. if options = [] then [''Yes'', ''No''] else options)"
  shows "create (Tables db) creator msg options sec pub maxv =
     (Inr \<lparr>poll_id = lastrowid (Polls db), creator_id = creator, message = msg,
           vote_options = names options, secret = of_py_bool sec, public = of_py_bool pub,
           max_votes = max 1 (min maxv (int (length (names options))))\<rparr>,
      snd (create (Tables db) creator msg options sec pub maxv))"
proof -
  let ?i = "lastrowid (Polls db)"
  let ?row = "PollsRow ?i creator msg 0 (of_py_bool sec) (of_py_bool pub)
               (max 1 (min maxv (int (length (names options)))))"
  let ?rows = "map (\<lambda>(number, name). OptionsRow ?i (int number) name) (enumerate 0 (names options))"
  let ?db' = "snd (create (Tables db) creator msg options sec pub maxv)"
  have P: "Polls ?db' = Polls db @ [?row]" and O: "VoteOptions ?db' = VoteOptions db @ ?rows"
    by (simp_all only: create_tables_unfold names_def, simp_all)
  have fresh: "?i \<notin> set (map p_poll_id (Polls db))" by (rule lastrowid_fresh)
  have "o_poll_id r \<noteq> ?i" if "r \<in> set (VoteOptions db)" for r
    using assms(1) fresh that unfolding references_polls_def by metis
  then have old: "filter (\<lambda>r. o_poll_id r = ?i) (VoteOptions db) = []"
    by (auto simp: filter_empty_conv)
  have sel: "filter (\<lambda>r. o_poll_id r = ?i) (VoteOptions ?db') = ?rows"
    unfolding O by (simp add: old new_options_rows(1))
  have n: "select_names (Tables ?db') ?i = Inr (names options)"
    by (simp only: select_names_def connection.case sel new_options_rows(2,3))
  have nf: "find (\<lambda>r. p_poll_id r = ?i) (Polls db) = None"
    by (simp add: find_None_iff lastrowid_fresh_row)
  have "find (\<lambda>r. p_poll_id r = ?i) (Polls db @ [?row]) = Some ?row"
    by (simp add: find_append_rows nf)
  then have p: "select_poll (Tables ?db') ?i = Inr (Some ?row)"
    by (simp only: select_poll_def connection.case P)
  have ne: "names options \<noteq> []" by (simp add: names_def)
  have "fst (create (Tables db) creator msg options sec pub maxv) = Poll_init (Tables ?db') ?i"
    by (simp add: create_def create_tables_def Let_def)
  also have "\<dots> = Inr \<lparr>poll_id = ?i, creator_id = creator, message = msg,
           vote_options = names options, secret = of_py_bool sec, public = of_py_bool pub,
           max_votes = max 1 (min maxv (int (length (names options))))\<rparr>"
    unfolding Poll_init_def by (simp add: n p ne)
  finally show ?thesis by (simp add: prod_eq_iff)
qed



lemma create_returns_loaded:
  "fst (create (Tables db) creator msg options sec pub maxv) =
     Poll_init (Tables (snd (create (Tables db) creator msg options sec pub maxv)))
       (lastrowid (Polls db))"
  by (simp add: create_def create_tables_def Let_def)

lemma length_filter_split:
  "(\<And>x. x \<in> set xs \<Longrightarrow> \<not> (A x \<and> B x)) \<Longrightarrow>
   length (filter (\<lambda>x. A x \<or> B x) xs) = length (filter A xs) + length (filter B xs)"
  by (induction xs) auto

lemma sum_of_counts:
  "(\<Sum>i\<leftarrow>[0..<n]. length (filter (\<lambda>r. P r \<and> f r = int i) xs))
     = length (filter (\<lambda>r. P r \<and> 0 \<le> f r \<and> f r < int n) xs)"
proof (induction n)
  case 0
  then show ?case by simp
next
  case (Suc n)
  have "filter (\<lambda>r. P r \<and> 0 \<le> f r \<and> f r < int (Suc n)) xs
        = filter (\<lambda>r. (P r \<and> 0 \<le> f r \<and> f r < int n) \<or> (P r \<and> f r = int n)) xs"
    by (rule filter_cong) auto
  moreover have "length (filter (\<lambda>r. (P r \<and> 0 \<le> f r \<and> f r < int n) \<or> (P r \<and> f r = int n)) xs)
        = length (filter (\<lambda>r. P r \<and> 0 \<le> f r \<and> f r < int n) xs)
          + length (filter (\<lambda>r. P r \<and> f r = int n) xs)"
    by (rule length_filter_split) auto
  ultimately show ?case using Suc by simp
qed

lemma distinct_map_iff_counts:
  "distinct (map f xs) \<longleftrightarrow> (\<forall>u. length (filter (\<lambda>r. f r = u) xs) \<le> 1)"
proof (induction xs)
  case Nil
  then show ?case by simp
next
  case (Cons a xs)
  show ?case
  proof
    assume d: "distinct (map f (a # xs))"
    then have na: "f a \<notin> f ` set xs" and dx: "distinct (map f xs)" by simp_all
    from na have "f r \<noteq> f a" if "r \<in> set xs" for r
      using that by (metis imageI)
    then have "filter (\<lambda>r. f r = f a) xs = []"
      by (simp add: filter_empty_conv)
    with dx Cons show "\<forall>u. length (filter (\<lambda>r. f r = u) (a # xs)) \<le> 1"
      by auto
  next
    assume c: "\<forall>u. length (filter (\<lambda>r. f r = u) (a # xs)) \<le> 1"
    then have "length (filter (\<lambda>r. f r = f a) (a # xs)) \<le> 1" by blast
    then have e: "filter (\<lambda>r. f r = f a) xs = []" by simp
    have "f a \<notin> f ` set xs"
    proof
      assume "f a \<in> f ` set xs"
      then obtain r where "r \<in> set xs" "f r = f a" by auto
      with e show False by (auto simp: filter_empty_conv)
    qed
    moreover have "\<forall>u. length (filter (\<lambda>r. f r = u) xs) \<le> 1"
    proof
      fix u
      from c have "length (filter (\<lambda>r. f r = u) (a # xs)) \<le> 1" by blast
      then show "length (filter (\<lambda>r. f r = u) xs) \<le> 1"
        by (simp split: if_splits)
    qed
    ultimately show "distinct (map f (a # xs))" using Cons by simp
  qed
qed

lemma reachable_votes_valid:
  assumes "reachable db" and "poll_of db self"
    and "r \<in> set (Votes db)" and "v_poll_id r = poll_id self"
  shows "0 \<le> v_vote r \<and> v_vote r < int (length (vote_options self))"
proof -
  from assms(1) have "votes_in_range db"
    using reachable_invariant by (simp add: invariant_def)
  with assms(3) have "0 \<le> v_vote r \<and>
      v_vote r < int (length (filter (\<lambda>r'. o_poll_id r' = v_poll_id r) (VoteOptions db)))"
    unfolding votes_in_range_def by blast
  with poll_of_row(2)[OF assms(2)] assms(4) show ?thesis by simp
qed

lemma reachable_single_vote: "reachable db \<Longrightarrow> distinct (Votes db)"
  using reachable_invariant by (simp add: invariant_def single_vote_def)

lemma votes_as_filter:
  "length (votes db self u)
     = length (filter (\<lambda>r. v_voter r = u) (filter (\<lambda>r. v_poll_id r = poll_id self) (Votes db)))"
  by (simp add: votes_def)

lemma distinct_voters_of_option:
  assumes "distinct rows"
  shows "distinct (map v_voter (filter (\<lambda>r. v_poll_id r = i \<and> v_vote r = x) rows))"
proof -
  have "inj_on v_voter (set (filter (\<lambda>r. v_poll_id r = i \<and> v_vote r = x) rows))"
    by (rule inj_onI) (auto simp: votes_row.expand)
  with assms show ?thesis by (simp add: distinct_map)
qed

lemma distinct_votes_of_voter:
  assumes "distinct rows"
  shows "distinct (map v_vote (filter (\<lambda>r. v_poll_id r = i \<and> v_voter r = u) rows))"
proof -
  have "inj_on v_vote (set (filter (\<lambda>r. v_poll_id r = i \<and> v_voter r = u) rows))"
    by (rule inj_onI) (auto simp: votes_row.expand)
  with assms show ?thesis by (simp add: distinct_map)
qed

lemma voter_of_option_iff_row:
  "u \<in> set (map v_voter (select_votes db (poll_id self) x))
     \<longleftrightarrow> VotesRow (poll_id self) u x \<in> set (Votes db)"
proof
  assume "u \<in> set (map v_voter (select_votes db (poll_id self) x))"
  then obtain r where r: "r \<in> set (Votes db)" and "v_poll_id r = poll_id self \<and> v_voter r = u
    \<and> v_vote r = x"
    by (auto simp: select_votes_def)
  then have "r = VotesRow (poll_id self) u x"
    by (simp only: votes_row_eq)
  with r show "VotesRow (poll_id self) u x \<in> set (Votes db)"
    by simp
next
  assume "VotesRow (poll_id self) u x \<in> set (Votes db)"
  then have "VotesRow (poll_id self) u x \<in> set (select_votes db (poll_id self) x)"
    by (simp add: select_votes_def)
  then have "v_voter (VotesRow (poll_id self) u x)
      \<in> set (map v_voter (select_votes db (poll_id self) x))"
    by (simp only: set_map image_eqI)
  then show "u \<in> set (map v_voter (select_votes db (poll_id self) x))" by simp
qed

subsection \<open>What \<^verbatim>\<open>load\<close> and \<^verbatim>\<open>count_votes\<close> do within 64 bits\<close>

text \<open>
  On a connection that opens, for an id within 64 bits, \<^verbatim>\<open>load\<close> is decided by the
  rows: it raises \<^verbatim>\<open>InvalidPollError\<close> when the tables are missing, when no row of
  \<^verbatim>\<open>VoteOptions\<close> has the id or when no row of \<^verbatim>\<open>Polls\<close> has it, and otherwise returns
  the poll with the option names in the order of their numbers and the other fields from
  the row of \<^verbatim>\<open>Polls\<close>.
\<close>

lemma load_of_rows:
  assumes "sqlite_integer i"
  shows "load (Opens NoTables) i = Inl InvalidPollError"
    and "load (Opens (Tables db)) i =
      (if filter (\<lambda>r. o_poll_id r = i) (VoteOptions db) = [] then Inl InvalidPollError
       else case find (\<lambda>r. p_poll_id r = i) (Polls db) of
              None \<Rightarrow> Inl InvalidPollError
            | Some row \<Rightarrow>
                Inr \<lparr>poll_id = i, creator_id = p_creator row, message = p_message row,
                     vote_options = map o_name (sort_key o_number
                                      (filter (\<lambda>r. o_poll_id r = i) (VoteOptions db))),
                     secret = p_secret row, public = p_public row,
                     max_votes = p_max_votes row\<rparr>)"
proof -
  show "load (Opens NoTables) i = Inl InvalidPollError"
    by (simp add: load_def connect_def Poll_init_def select_names_def)
  have "sort_key o_number rows = [] \<longleftrightarrow> rows = []" for rows :: "options_row list"
    by (metis length_0_conv length_sort)
  then show "load (Opens (Tables db)) i =
      (if filter (\<lambda>r. o_poll_id r = i) (VoteOptions db) = [] then Inl InvalidPollError
       else case find (\<lambda>r. p_poll_id r = i) (Polls db) of
              None \<Rightarrow> Inl InvalidPollError
            | Some row \<Rightarrow>
                Inr \<lparr>poll_id = i, creator_id = p_creator row, message = p_message row,
                     vote_options = map o_name (sort_key o_number
                                      (filter (\<lambda>r. o_poll_id r = i) (VoteOptions db))),
                     secret = p_secret row, public = p_public row,
                     max_votes = p_max_votes row\<rparr>)"
    using assms
    by (simp add: load_def connect_def Poll_init_def select_names_def select_poll_def
             split: option.splits)
qed

text \<open>
  In every state the program reaches, \<^verbatim>\<open>count_votes\<close> at a \<^verbatim>\<open>vote_id\<close> within 64 bits
  returns the number of vote records of the poll and option, which is 0 when the
  \<^verbatim>\<open>vote_id\<close> is not an index of the poll's options.
\<close>

lemma count_votes_within_64_bits:
  assumes "reachable db" and "poll_of db self" and "sqlite_integer vote_id"
  shows "count_votes db self vote_id
           = Inr (card {r \<in> set (Votes db). v_poll_id r = poll_id self \<and> v_vote r = vote_id})"
    and "vote_id < 0 \<or> int (length (vote_options self)) \<le> vote_id
           \<Longrightarrow> count_votes db self vote_id = Inr 0"
proof -
  have "{r \<in> set (Votes db). v_poll_id r = poll_id self \<and> v_vote r = vote_id}
          = {r. v_poll_id r = poll_id self \<and> v_vote r = vote_id} \<inter> set (Votes db)"
    by auto
  then show "count_votes db self vote_id
           = Inr (card {r \<in> set (Votes db). v_poll_id r = poll_id self \<and> v_vote r = vote_id})"
    unfolding count_votes_def select_votes_def
    using distinct_length_filter[OF reachable_single_vote[OF assms(1)],
            of "\<lambda>r. v_poll_id r = poll_id self \<and> v_vote r = vote_id"] assms(3)
    by simp
next
  assume out: "vote_id < 0 \<or> int (length (vote_options self)) \<le> vote_id"
  have "\<not> (v_poll_id r = poll_id self \<and> v_vote r = vote_id)" if "r \<in> set (Votes db)" for r
    using reachable_votes_valid[OF assms(1,2) that] out by auto
  then show "count_votes db self vote_id = Inr 0"
    using assms(3) by (simp add: count_votes_def select_votes_def filter_empty_conv)
qed

section \<open>Properties of the poll store\<close>

text \<open>
  C7: \<^verbatim>\<open>load(id)\<close> is to return a poll with all its fields set or to raise
  \<^verbatim>\<open>InvalidPollError\<close>, and no other error. It does not: on a database with its tables
  an id outside 64 bits, which no poll has, raises \<^verbatim>\<open>OverflowError\<close>, and a database
  file that cannot be opened raises \<^verbatim>\<open>sqlite3.OperationalError\<close>.
\<close>

theorem load_raises_other_errors:
  "load (Opens (Tables two_polls)) 9223372036854775808 = Inl OverflowError
   \<and> load Unopenable 1 = Inl (Sqlite3Error OperationalError)"
  by (simp add: load_def connect_def sqlite_integer_def)

text \<open>
  C5: on an unfinished poll, a vote for an index below 0 or not below the number of
  options raises \<^verbatim>\<open>IndexError\<close>, which is neither \<^verbatim>\<open>NoMoreVotesError\<close> nor the silent
  return of a finished poll, and leaves the tables as they were.
\<close>

theorem vote_out_of_range:
  assumes "is_finished db self = Inr False"
    and "vote_id < 0 \<or> int (length (vote_options self)) \<le> vote_id"
  shows "vote db self user_id vote_id = (Inl IndexError, db)
       \<and> IndexError \<noteq> NoMoreVotesError
       \<and> vote db self user_id vote_id \<noteq> (Inr (), db)"
  using assms by (auto simp: vote_def)

theorem vote_out_of_range_witness:
  "is_finished two_polls lunch = Inr False
   \<and> vote two_polls lunch ''bob'' (- 1) = (Inl IndexError, two_polls)
   \<and> vote two_polls lunch ''bob'' (int (length (vote_options lunch))) = (Inl IndexError, two_polls)"
proof -
  have u: "is_finished two_polls lunch = Inr False"
    by (simp add: is_finished_def two_polls_def lunch_def)
  have a: "(- 1 :: int) < 0 \<or> int (length (vote_options lunch)) \<le> - 1" by simp
  have b: "int (length (vote_options lunch)) < 0
           \<or> int (length (vote_options lunch)) \<le> int (length (vote_options lunch))" by simp
  from vote_out_of_range[OF u a] vote_out_of_range[OF u b] u show ?thesis by simp
qed

text \<open>
  C3: on an unfinished poll with \<^verbatim>\<open>max_votes\<close> \<open>M > 1\<close>, a voter who holds \<open>M\<close> distinct
  options and votes for a valid option that is not among them gets
  \<^verbatim>\<open>NoMoreVotesError\<close>, and the tables are left as they were.
\<close>

theorem vote_no_more_votes:
  assumes "is_finished db self = Inr False"
    and "1 < max_votes self"
    and "int (card (set (votes db self user_id))) = max_votes self"
    and "0 \<le> vote_id" and "vote_id < int (length (vote_options self))"
    and "vote_id \<notin> set (votes db self user_id)"
  shows "vote db self user_id vote_id = (Inl NoMoreVotesError, db)"
proof -
  have "card (set (votes db self user_id)) \<le> length (votes db self user_id)"
    by (rule card_length)
  with assms(3) have "max_votes self \<le> int (length (votes db self user_id))"
    by linarith
  with assms show ?thesis
    by (intro vote_refused) simp_all
qed

theorem vote_no_more_votes_witness:
  "is_finished two_polls lunch = Inr False \<and> 1 < max_votes lunch
   \<and> int (card (set (votes two_polls lunch ''bob''))) = max_votes lunch
   \<and> (0::int) \<le> 1 \<and> 1 < int (length (vote_options lunch))
   \<and> 1 \<notin> set (votes two_polls lunch ''bob'')
   \<and> vote two_polls lunch ''bob'' 1 = (Inl NoMoreVotesError, two_polls)"
proof -
  have h: "is_finished two_polls lunch = Inr False" "1 < max_votes lunch"
    "int (card (set (votes two_polls lunch ''bob''))) = max_votes lunch"
    "(0::int) \<le> 1" "1 < int (length (vote_options lunch))"
    "1 \<notin> set (votes two_polls lunch ''bob'')"
    by (simp_all add: is_finished_def votes_def two_polls_def lunch_def)
  from vote_no_more_votes[OF h] h show ?thesis by simp
qed

text \<open>
  C4: once \<^verbatim>\<open>end()\<close> has been called on a poll, \<^verbatim>\<open>is_finished()\<close> is true at once and
  after any further calls of \<^verbatim>\<open>create\<close>, \<^verbatim>\<open>vote\<close> and \<^verbatim>\<open>end\<close> on any polls; every
  later \<^verbatim>\<open>vote\<close> on it, for any voter and any index, in range or not, returns without
  error and leaves the tables (so every tally) as they were; and a second \<^verbatim>\<open>end()\<close>
  changes nothing.
\<close>

theorem end_is_final:
  assumes "poll_of db self" and "step\<^sup>*\<^sup>* (end_poll db self) db'"
  shows "is_finished (end_poll db self) self = Inr True
       \<and> is_finished db' self = Inr True
       \<and> vote db' self user_id vote_id = (Inr (), db')
       \<and> end_poll db' self = db'"
proof -
  have c0: "closed_for self (end_poll db self)"
    using assms(1) by (rule closed_for_end)
  with assms(2) have c: "closed_for self db'"
    by (rule closed_for_steps)
  from c0 c show ?thesis
    by (simp add: closed_for_finished closed_for_end_again vote_finished)
qed

theorem end_is_final_witness:
  "poll_of two_polls lunch
   \<and> step\<^sup>*\<^sup>* (end_poll two_polls lunch) (end_poll (end_poll two_polls lunch) ship)
   \<and> is_finished (end_poll (end_poll two_polls lunch) ship) lunch = Inr True
   \<and> vote (end_poll (end_poll two_polls lunch) ship) lunch ''carol'' 7
       = (Inr (), end_poll (end_poll two_polls lunch) ship)
   \<and> end_poll (end_poll (end_poll two_polls lunch) ship) lunch
       = end_poll (end_poll two_polls lunch) ship"
proof -
  have "poll_of (end_poll two_polls lunch) ship"
    by (simp add: eval_defs end_poll_def)
  then have "step (end_poll two_polls lunch) (end_poll (end_poll two_polls lunch) ship)"
    by (rule step_end) simp
  then have s: "step\<^sup>*\<^sup>* (end_poll two_polls lunch) (end_poll (end_poll two_polls lunch) ship)"
    by (rule r_into_rtranclp)
  from end_is_final[OF poll_of_lunch s] poll_of_lunch s show ?thesis by simp
qed

text \<open>
  C1: on an unfinished poll, a vote for a valid option that the voter holds succeeds and
  deletes exactly the one record of that voter and option; and when a voter who does not
  hold a valid option casts it successfully, casts it again and casts it a third time,
  the voter holds it after the first and third cast and not after the second, the third
  cast giving back the tables of the first.
\<close>

theorem vote_toggle:
  assumes "single_vote db" and "is_finished db self = Inr False"
    and "0 \<le> x" and "x < int (length (vote_options self))"
  shows "(x \<in> set (votes db self u) \<longrightarrow>
           (\<exists>db'. vote db self u x = (Inr (), db') \<and>
                  VotesRow (poll_id self) u x \<in> set (Votes db) \<and>
                  Votes db' = remove1 (VotesRow (poll_id self) u x) (Votes db) \<and>
                  length (Votes db') + 1 = length (Votes db) \<and>
                  Polls db' = Polls db \<and> VoteOptions db' = VoteOptions db \<and>
                  votes db' self u = removeAll x (votes db self u)))
       \<and> (x \<notin> set (votes db self u) \<and> fst (vote db self u x) = Inr () \<longrightarrow>
           (\<exists>d1 d2. vote db self u x = (Inr (), d1) \<and> x \<in> set (votes d1 self u) \<and>
                    vote d1 self u x = (Inr (), d2) \<and> x \<notin> set (votes d2 self u) \<and>
                    vote d2 self u x = (Inr (), d1)))"
proof (intro conjI impI)
  let ?R = "VotesRow (poll_id self) u x"
  assume held: "x \<in> set (votes db self u)"
  then have mem: "?R \<in> set (Votes db)" by (simp add: held_iff_row)
  have v: "vote db self u x = (Inr (), delete_vote (poll_id self) u x db)"
    using assms(2-4) held by (rule vote_unvote)
  have rm: "Votes (delete_vote (poll_id self) u x db) = remove1 ?R (Votes db)"
    using assms(1) by (simp add: Votes_delete_vote single_vote_def distinct_remove1_removeAll)
  have "length (remove1 ?R (Votes db)) + 1 = length (Votes db)"
    using mem by (simp add: length_remove1) (metis Suc_pred length_pos_if_in_set)
  with v mem rm show "\<exists>db'. vote db self u x = (Inr (), db') \<and>
                  ?R \<in> set (Votes db) \<and>
                  Votes db' = remove1 ?R (Votes db) \<and>
                  length (Votes db') + 1 = length (Votes db) \<and>
                  Polls db' = Polls db \<and> VoteOptions db' = VoteOptions db \<and>
                  votes db' self u = removeAll x (votes db self u)"
    by (simp add: votes_after_delete_vote)
next
  assume "x \<notin> set (votes db self u) \<and> fst (vote db self u x) = Inr ()"
  then have new: "x \<notin> set (votes db self u)" and ok: "fst (vote db self u x) = Inr ()"
    by simp_all
  from first_cast[OF assms(2-4) new ok] obtain d0 where
    d0: "is_finished d0 self = Inr False" "x \<notin> set (votes d0 self u)"
        "int (length (votes d0 self u)) < max_votes self"
    and v1: "vote db self u x = (Inr (), insert_vote (poll_id self) u x d0)"
    by blast
  note c = cast_and_unvote[OF d0(1) assms(3,4) d0(2,3)]
  from v1 c d0(2) show "\<exists>d1 d2. vote db self u x = (Inr (), d1) \<and> x \<in> set (votes d1 self u) \<and>
                    vote d1 self u x = (Inr (), d2) \<and> x \<notin> set (votes d2 self u) \<and>
                    vote d2 self u x = (Inr (), d1)"
    by blast
qed


theorem vote_toggle_witness:
  "single_vote two_polls \<and> is_finished two_polls lunch = Inr False
   \<and> 0 \<in> set (votes two_polls lunch ''bob'')
   \<and> (\<exists>db'. vote two_polls lunch ''bob'' 0 = (Inr (), db') \<and>
             Votes db' = remove1 (VotesRow (poll_id lunch) ''bob'' 0) (Votes two_polls) \<and>
             votes db' lunch ''bob'' = removeAll 0 (votes two_polls lunch ''bob''))
   \<and> 1 \<notin> set (votes two_polls lunch ''carol'')
   \<and> fst (vote two_polls lunch ''carol'' 1) = Inr ()
   \<and> (\<exists>d1 d2. vote two_polls lunch ''carol'' 1 = (Inr (), d1) \<and>
               1 \<in> set (votes d1 lunch ''carol'') \<and>
               vote d1 lunch ''carol'' 1 = (Inr (), d2) \<and>
               1 \<notin> set (votes d2 lunch ''carol'') \<and>
               vote d2 lunch ''carol'' 1 = (Inr (), d1))"
proof -
  have s: "single_vote two_polls" and f: "is_finished two_polls lunch = Inr False"
    by (simp_all add: single_vote_def is_finished_def two_polls_def lunch_def)
  have r0: "(0::int) \<le> 0" "0 < int (length (vote_options lunch))"
    and r1: "(0::int) \<le> 1" "1 < int (length (vote_options lunch))"
    by (simp_all add: lunch_def)
  have a: "0 \<in> set (votes two_polls lunch ''bob'')"
    and b: "1 \<notin> set (votes two_polls lunch ''carol'')"
    by (simp_all add: votes_def two_polls_def lunch_def)
  have c: "fst (vote two_polls lunch ''carol'' 1) = Inr ()"
    by (simp add: eval_defs)
  from vote_toggle[OF s f r0, of "''bob''"] a
  have A: "\<exists>db'. vote two_polls lunch ''bob'' 0 = (Inr (), db') \<and>
             Votes db' = remove1 (VotesRow (poll_id lunch) ''bob'' 0) (Votes two_polls) \<and>
             votes db' lunch ''bob'' = removeAll 0 (votes two_polls lunch ''bob'')"
    by blast
  from vote_toggle[OF s f r1, of "''carol''"] b c
  have B: "\<exists>d1 d2. vote two_polls lunch ''carol'' 1 = (Inr (), d1) \<and>
               1 \<in> set (votes d1 lunch ''carol'') \<and>
               vote d1 lunch ''carol'' 1 = (Inr (), d2) \<and>
               1 \<notin> set (votes d2 lunch ''carol'') \<and>
               vote d2 lunch ''carol'' 1 = (Inr (), d1)"
    by blast
  from s f a b c A B show ?thesis by blast
qed

text \<open>
  C2: in every state the program reaches, a voter holds at most one record in a poll
  whose \<^verbatim>\<open>max_votes\<close> is 1; and when such a voter, holding a record, votes for a valid
  option that is not held, the call succeeds, all records of that voter in that poll are
  deleted and the new one is added, so that the voter's votes are exactly the new option.
\<close>

theorem single_choice:
  "(reachable db \<and> poll_of db self \<and> max_votes self = 1 \<longrightarrow> length (votes db self u) \<le> 1)
   \<and> (is_finished db self = Inr False \<and> max_votes self = 1 \<and>
       0 \<le> x \<and> x < int (length (vote_options self)) \<and>
       x \<notin> set (votes db self u) \<and> votes db self u \<noteq> [] \<longrightarrow>
       (\<exists>db'. vote db self u x = (Inr (), db') \<and>
              Votes db' = filter (\<lambda>r. \<not> (v_poll_id r = poll_id self \<and> v_voter r = u)) (Votes db)
                            @ [VotesRow (poll_id self) u x] \<and>
              Polls db' = Polls db \<and> VoteOptions db' = VoteOptions db \<and>
              votes db' self u = [x]))"
proof (intro conjI impI)
  assume "reachable db \<and> poll_of db self \<and> max_votes self = 1"
  with reachable_within_max[of db self u] show "length (votes db self u) \<le> 1"
    by simp
next
  assume a: "is_finished db self = Inr False \<and> max_votes self = 1 \<and>
       0 \<le> x \<and> x < int (length (vote_options self)) \<and>
       x \<notin> set (votes db self u) \<and> votes db self u \<noteq> []"
  then have "max_votes self \<le> int (length (votes db self u))"
    by (cases "votes db self u") simp_all
  with a have v: "vote db self u x =
      (Inr (), insert_vote (poll_id self) u x (delete_votes (poll_id self) u db))"
    by (intro vote_replace) simp_all
  have "votes (insert_vote (poll_id self) u x (delete_votes (poll_id self) u db)) self u = [x]"
    by (simp add: votes_after_insert_vote votes_after_delete_votes)
  with v show "\<exists>db'. vote db self u x = (Inr (), db') \<and>
              Votes db' = filter (\<lambda>r. \<not> (v_poll_id r = poll_id self \<and> v_voter r = u)) (Votes db)
                            @ [VotesRow (poll_id self) u x] \<and>
              Polls db' = Polls db \<and> VoteOptions db' = VoteOptions db \<and>
              votes db' self u = [x]"
    by (simp add: insert_after_delete_votes)
qed

theorem single_choice_witness:
  "reachable two_polls \<and> poll_of two_polls ship \<and> max_votes ship = 1
   \<and> length (votes two_polls ship ''bob'') \<le> 1
   \<and> is_finished two_polls ship = Inr False
   \<and> (0::int) \<le> 1 \<and> 1 < int (length (vote_options ship))
   \<and> 1 \<notin> set (votes two_polls ship ''bob'') \<and> votes two_polls ship ''bob'' \<noteq> []
   \<and> (\<exists>db'. vote two_polls ship ''bob'' 1 = (Inr (), db') \<and> votes db' ship ''bob'' = [1])"
proof -
  have m: "max_votes ship = 1" by (simp add: ship_def)
  have h: "is_finished two_polls ship = Inr False"
    "(0::int) \<le> 1" "1 < int (length (vote_options ship))"
    "1 \<notin> set (votes two_polls ship ''bob'')" "votes two_polls ship ''bob'' \<noteq> []"
    by (simp_all add: is_finished_def votes_def two_polls_def ship_def)
  from single_choice[of two_polls ship "''bob''" 1] reachable_two_polls poll_of_ship m
  have A: "length (votes two_polls ship ''bob'') \<le> 1" by blast
  from single_choice[of two_polls ship "''bob''" 1] m h
  have B: "\<exists>db'. vote two_polls ship ''bob'' 1 = (Inr (), db') \<and> votes db' ship ''bob'' = [1]"
    by blast
  from reachable_two_polls poll_of_ship m h A B show ?thesis by blast
qed

text \<open>
  C6: \<^verbatim>\<open>create\<close> returns a poll whose options are the given ones, or \<open>Yes\<close> and \<open>No\<close>
  when none are given, and whose \<^verbatim>\<open>max_votes\<close>, the value stored and loaded back, is
  the given one clamped into the range from 1 to the number of options; so a created
  poll has at least one option and \<^verbatim>\<open>max_votes\<close> between 1 and the number of options.
\<close>

theorem create_defaults_and_clamp:
  assumes "references_polls (create_tables con)"
  shows "\<exists>self db'. create con creator msg options sec pub maxv = (Inr self, db')
     \<and> poll_of db' self
     \<and> vote_options self = (if options = [] then [''Yes'', ''No''] else options)
     \<and> max_votes self = (if maxv < 1 then 1
                         else if int (length (vote_options self)) < maxv
                              then int (length (vote_options self)) else maxv)
     \<and> 1 \<le> length (vote_options self)
     \<and> 1 \<le> max_votes self \<and> max_votes self \<le> int (length (vote_options self))"
proof -
  let ?names = "if options = [] then [''Yes'', ''No''] else options"
  let ?db = "create_tables con"
  let ?self = "\<lparr>poll_id = lastrowid (Polls ?db), creator_id = creator, message = msg,
           vote_options = ?names, secret = of_py_bool sec, public = of_py_bool pub,
           max_votes = max 1 (min maxv (int (length ?names)))\<rparr>"
  let ?db' = "snd (create (Tables ?db) creator msg options sec pub maxv)"
  have c: "create con creator msg options sec pub maxv = (Inr ?self, ?db')"
    by (subst create_any_connection) (rule create_loads_what_it_stored[OF assms])
  have c': "create (Tables ?db) creator msg options sec pub maxv = (Inr ?self, ?db')"
    using assms by (rule create_loads_what_it_stored)
  have "Poll_init (Tables ?db') (lastrowid (Polls ?db)) = Inr ?self"
    by (subst create_returns_loaded[symmetric], subst c') simp
  then have p: "poll_of ?db' ?self" by (simp add: poll_of_def)
  have l: "1 \<le> length ?names" by (cases options) simp_all
  have "create con creator msg options sec pub maxv = (Inr ?self, ?db')
     \<and> poll_of ?db' ?self
     \<and> vote_options ?self = ?names
     \<and> max_votes ?self = (if maxv < 1 then 1
                         else if int (length (vote_options ?self)) < maxv
                              then int (length (vote_options ?self)) else maxv)
     \<and> 1 \<le> length (vote_options ?self)
     \<and> 1 \<le> max_votes ?self \<and> max_votes ?self \<le> int (length (vote_options ?self))"
    using c p l by (simp add: max_def min_def)
  then show ?thesis by blast
qed


theorem create_defaults_and_clamp_witness:
  "references_polls (create_tables NoTables)
   \<and> (\<exists>self db'. create NoTables ''alice'' ''Lunch?'' [] False False 1 = (Inr self, db')
         \<and> vote_options self = [''Yes'', ''No''] \<and> max_votes self = 1)
   \<and> references_polls (create_tables (Tables two_polls))
   \<and> (\<exists>self db'. create (Tables two_polls) ''erin'' ''Tea?'' [''Green'', ''Black''] True False 5
                    = (Inr self, db')
         \<and> vote_options self = [''Green'', ''Black''] \<and> max_votes self = 2)"
proof -
  have a: "references_polls (create_tables NoTables)"
    and b: "references_polls (create_tables (Tables two_polls))"
    by (simp_all add: references_polls_def create_tables_def two_polls_def)
  from create_defaults_and_clamp[OF a, of "''alice''" "''Lunch?''" "[]" False False 1]
  obtain self db' where "create NoTables ''alice'' ''Lunch?'' [] False False 1 = (Inr self, db')"
    "vote_options self = [''Yes'', ''No'']"
    "max_votes self = (if (1::int) < 1 then 1
                         else if int (length (vote_options self)) < 1
                              then int (length (vote_options self)) else 1)"
    by auto
  then have A: "\<exists>self db'. create NoTables ''alice'' ''Lunch?'' [] False False 1 = (Inr self, db')
         \<and> vote_options self = [''Yes'', ''No''] \<and> max_votes self = 1"
    by auto
  from create_defaults_and_clamp[OF b, of "''erin''" "''Tea?''" "[''Green'', ''Black'']" True False 5]
  obtain self db' where
    "create (Tables two_polls) ''erin'' ''Tea?'' [''Green'', ''Black''] True False 5 = (Inr self, db')"
    "vote_options self = [''Green'', ''Black'']"
    "max_votes self = (if (5::int) < 1 then 1
                         else if int (length (vote_options self)) < 5
                              then int (length (vote_options self)) else 5)"
    by auto
  then have B: "\<exists>self db'. create (Tables two_polls) ''erin'' ''Tea?'' [''Green'', ''Black''] True False 5
                    = (Inr self, db')
         \<and> vote_options self = [''Green'', ''Black''] \<and> max_votes self = 2"
    by auto
  from a b A B show ?thesis by blast
qed

text \<open>
  C8: in every state the program reaches, \<^verbatim>\<open>count_votes(i)\<close> at each index \<open>i\<close> of a
  poll's options returns the number of vote records of that option (it raises only if
  the index is outside 64 bits), and \<^verbatim>\<open>num_votes()\<close> is the sum of these numbers over
  the indices; \<^verbatim>\<open>num_voters()\<close> is at most \<^verbatim>\<open>num_votes()\<close>; and the two are equal
  exactly when every voter with a vote in the poll has exactly one.
\<close>

theorem tallies_agree:
  assumes "reachable db" and "poll_of db self"
  shows "(\<forall>i < length (vote_options self).
            count_votes db self (int i) =
              (if sqlite_integer (int i)
               then Inr (length (select_votes db (poll_id self) (int i)))
               else Inl OverflowError))
       \<and> num_votes db self
           = (\<Sum>i\<leftarrow>[0..<length (vote_options self)].
                length (select_votes db (poll_id self) (int i)))
       \<and> num_voters db self \<le> num_votes db self
       \<and> (num_voters db self = num_votes db self \<longleftrightarrow>
            (\<forall>u. votes db self u \<noteq> [] \<longrightarrow> length (votes db self u) = 1))"
proof (intro conjI)
  let ?P = "\<lambda>r. v_poll_id r = poll_id self"
  let ?n = "length (vote_options self)"
  show "\<forall>i < ?n. count_votes db self (int i) =
              (if sqlite_integer (int i)
               then Inr (length (select_votes db (poll_id self) (int i)))
               else Inl OverflowError)"
    by (simp add: count_votes_def)
  have "filter (\<lambda>r. ?P r \<and> 0 \<le> v_vote r \<and> v_vote r < int ?n) (Votes db) = filter ?P (Votes db)"
    using reachable_votes_valid[OF assms] by (intro filter_cong) auto
  then show "num_votes db self
           = (\<Sum>i\<leftarrow>[0..<?n]. length (select_votes db (poll_id self) (int i)))"
    unfolding num_votes_def select_votes_def by (simp only: sum_of_counts)
  show "num_voters db self \<le> num_votes db self"
    unfolding num_voters_def num_votes_def
    using length_remdups_leq[of "map v_voter (filter ?P (Votes db))"] by simp
  have "num_voters db self = num_votes db self
          \<longleftrightarrow> distinct (map v_voter (filter ?P (Votes db)))"
    unfolding num_voters_def num_votes_def
    using length_remdups_eq[of "map v_voter (filter ?P (Votes db))"] by simp
  also have "\<dots> \<longleftrightarrow> (\<forall>u. length (votes db self u) \<le> 1)"
    by (simp only: distinct_map_iff_counts votes_as_filter)
  also have "\<dots> \<longleftrightarrow> (\<forall>u. votes db self u \<noteq> [] \<longrightarrow> length (votes db self u) = 1)"
  proof -
    have "length ys \<le> 1 \<longleftrightarrow> (ys \<noteq> [] \<longrightarrow> length ys = 1)" for ys :: "int list"
      by (cases ys) auto
    then show ?thesis by simp
  qed
  finally show "num_voters db self = num_votes db self \<longleftrightarrow>
            (\<forall>u. votes db self u \<noteq> [] \<longrightarrow> length (votes db self u) = 1)" .
qed

theorem tallies_agree_witness:
  "reachable two_polls \<and> poll_of two_polls lunch
   \<and> count_votes two_polls lunch 0 = Inr 2 \<and> count_votes two_polls lunch 1 = Inr 0
   \<and> count_votes two_polls lunch 2 = Inr 1 \<and> num_votes two_polls lunch = 3
   \<and> num_votes two_polls lunch
       = (\<Sum>i\<leftarrow>[0..<length (vote_options lunch)].
            length (select_votes two_polls (poll_id lunch) (int i)))
   \<and> num_voters two_polls lunch \<le> num_votes two_polls lunch
   \<and> (num_voters two_polls lunch = num_votes two_polls lunch \<longleftrightarrow>
        (\<forall>u. votes two_polls lunch u \<noteq> [] \<longrightarrow> length (votes two_polls lunch u) = 1))"
proof -
  note t = tallies_agree[OF reachable_two_polls poll_of_lunch]
  have e: "sqlite_integer 0" "sqlite_integer 1" "sqlite_integer 2"
    "length (select_votes two_polls (poll_id lunch) 0) = 2"
    "length (select_votes two_polls (poll_id lunch) 1) = 0"
    "length (select_votes two_polls (poll_id lunch) 2) = 1"
    "num_votes two_polls lunch = 3"
    by (simp_all add: sqlite_integer_def select_votes_def num_votes_def two_polls_def lunch_def)
  have n: "(0::nat) < length (vote_options lunch)" "(1::nat) < length (vote_options lunch)"
    "(2::nat) < length (vote_options lunch)"
    by (simp_all add: lunch_def)
  from t n(1) e have c0: "count_votes two_polls lunch 0 = Inr 2"
    by (metis of_nat_0)
  from t n(2) e have c1: "count_votes two_polls lunch 1 = Inr 0"
    by (metis of_nat_1)
  from t n(3) e have c2: "count_votes two_polls lunch 2 = Inr 1"
    by (metis of_nat_numeral)
  from t reachable_two_polls poll_of_lunch c0 c1 c2 e(7) show ?thesis by blast
qed

text \<open>
  C9: \<^verbatim>\<open>count_votes\<close> is to return 0, and not to raise, at every \<^verbatim>\<open>option_index\<close>
  outside the range of a poll's options. It does not at an index outside 64 bits: such
  an index is outside the range of the three options of this poll, and \<^verbatim>\<open>count_votes\<close>
  raises \<^verbatim>\<open>OverflowError\<close>.
\<close>

theorem count_votes_overflow:
  "reachable two_polls \<and> poll_of two_polls lunch
   \<and> int (length (vote_options lunch)) \<le> 9223372036854775808
   \<and> count_votes two_polls lunch 9223372036854775808 = Inl OverflowError"
  using reachable_two_polls poll_of_lunch
  by (simp add: count_votes_def sqlite_integer_def lunch_def)

text \<open>
  C10: in every state the program reaches, \<^verbatim>\<open>voters\<close>, \<^verbatim>\<open>votes\<close> and \<^verbatim>\<open>count_votes\<close>
  are views of the same records: at an index \<open>i\<close> within 64 bits \<^verbatim>\<open>voters(i)\<close> and
  \<^verbatim>\<open>count_votes(i)\<close> return, a voter is among \<^verbatim>\<open>voters(i)\<close> exactly when \<open>i\<close> is among
  the voter's \<^verbatim>\<open>votes\<close>, neither list repeats an entry, and \<^verbatim>\<open>count_votes(i)\<close> is the
  length of \<^verbatim>\<open>voters(i)\<close>; at an index outside 64 bits both raise
  \<^verbatim>\<open>OverflowError\<close>.
\<close>

theorem views_consistent:
  assumes "reachable db" and "poll_of db self"
  shows "(sqlite_integer i \<longrightarrow>
           (\<exists>vs. voters db self i = Inr vs \<and> count_votes db self i = Inr (length vs)
                  \<and> (u \<in> set vs \<longleftrightarrow> i \<in> set (votes db self u))
                  \<and> distinct vs))
       \<and> (\<not> sqlite_integer i \<longrightarrow>
            voters db self i = Inl OverflowError \<and> count_votes db self i = Inl OverflowError)
       \<and> distinct (votes db self u)"
proof (intro conjI impI)
  have d: "distinct (Votes db)" using assms(1) by (rule reachable_single_vote)
  show "distinct (votes db self u)"
    unfolding votes_def using d by (rule distinct_votes_of_voter)
  {
    assume b: "sqlite_integer i"
    let ?vs = "map v_voter (select_votes db (poll_id self) i)"
    have "voters db self i = Inr ?vs" "count_votes db self i = Inr (length ?vs)"
      using b by (simp_all add: voters_def count_votes_def)
    moreover have "u \<in> set ?vs \<longleftrightarrow> i \<in> set (votes db self u)"
      by (simp only: voter_of_option_iff_row held_iff_row)
    moreover have "distinct ?vs"
      unfolding select_votes_def using d by (rule distinct_voters_of_option)
    ultimately show "\<exists>vs. voters db self i = Inr vs \<and> count_votes db self i = Inr (length vs)
                  \<and> (u \<in> set vs \<longleftrightarrow> i \<in> set (votes db self u))
                  \<and> distinct vs"
      by blast
  }
  {
    assume "\<not> sqlite_integer i"
    then show "voters db self i = Inl OverflowError" "count_votes db self i = Inl OverflowError"
      by (simp_all add: voters_def count_votes_def)
  }
qed

theorem views_consistent_witness:
  "reachable two_polls \<and> poll_of two_polls lunch \<and> sqlite_integer 0
   \<and> (\<exists>vs. voters two_polls lunch 0 = Inr vs \<and> count_votes two_polls lunch 0 = Inr (length vs)
          \<and> (''carol'' \<in> set vs \<longleftrightarrow> 0 \<in> set (votes two_polls lunch ''carol''))
          \<and> distinct vs)
   \<and> \<not> sqlite_integer 9223372036854775808
   \<and> voters two_polls lunch 9223372036854775808 = Inl OverflowError
   \<and> count_votes two_polls lunch 9223372036854775808 = Inl OverflowError
   \<and> distinct (votes two_polls lunch ''carol'')"
proof -
  have a: "sqlite_integer 0" and b: "\<not> sqlite_integer 9223372036854775808"
    by (simp_all add: sqlite_integer_def)
  from views_consistent[OF reachable_two_polls poll_of_lunch, of 0 "''carol''"] a
  have A: "\<exists>vs. voters two_polls lunch 0 = Inr vs \<and> count_votes two_polls lunch 0 = Inr (length vs)
          \<and> (''carol'' \<in> set vs \<longleftrightarrow> 0 \<in> set (votes two_polls lunch ''carol''))
          \<and> distinct vs"
    and D: "distinct (votes two_polls lunch ''carol'')"
    by blast+
  from views_consistent[OF reachable_two_polls poll_of_lunch,
         of 9223372036854775808 "''carol''"] b
  have B: "voters two_polls lunch 9223372036854775808 = Inl OverflowError"
    "count_votes two_polls lunch 9223372036854775808 = Inl OverflowError"
    by blast+
  from reachable_two_polls poll_of_lunch a b A B D show ?thesis by blast
qed

end
